theory Spec2Isabelle
  imports Main "HOL-Library.Multiset"
begin

section \<open>Bulk management of Lambda reserved concurrency (hello.py)\<close>

text \<open>
  The script reads a list of function names (one name from the command line, or the rows
  of a CSV stream), selects one of four modes and sends one request per function to the
  Lambda API through a thread pool. The embedding follows the script function by
  function. Text is ASCII (a \<open>string\<close> is a list of bytes); the parsed command line is
  the record \<open>args\<close>, as \<open>argparse\<close> hands it to \<open>main\<close>; the rows that
  \<open>csv.reader\<close> yields, what \<open>make_client\<close> does and the client it returns are
  parameters.
\<close>

subsection \<open>Python's string operations used by the script\<close>

definition is_space :: "char \<Rightarrow> bool" where
  "is_space c = (let n = (of_char c :: nat) in (9 \<le> n \<and> n \<le> 13) \<or> (28 \<le> n \<and> n \<le> 32))"

text \<open>\<open>str.strip()\<close>: whitespace is removed at both ends.\<close>

definition strip :: "string \<Rightarrow> string" where
  "strip s = rev (dropWhile is_space (rev (dropWhile is_space s)))"

definition lower_char :: "char \<Rightarrow> char" where
  "lower_char c = (let n = (of_char c :: nat) in if 65 \<le> n \<and> n \<le> 90 then char_of (n + 32) else c)"

text \<open>\<open>str.lower()\<close>.\<close>

definition lower :: "string \<Rightarrow> string" where
  "lower s = map lower_char s"

text \<open>\<open>s.startswith(p)\<close>.\<close>

definition startswith :: "string \<Rightarrow> string \<Rightarrow> bool" where
  "startswith s p = (take (length p) s = p)"

text \<open>\<open>sep.join(xs)\<close>.\<close>

fun join :: "string \<Rightarrow> string list \<Rightarrow> string" where
  "join sep [] = []"
| "join sep [x] = x"
| "join sep (x # y # ys) = x @ sep @ join sep (y # ys)"

definition is_digit :: "char \<Rightarrow> bool" where
  "is_digit c = (let n = (of_char c :: nat) in 48 \<le> n \<and> n \<le> 57)"

definition digit_val :: "char \<Rightarrow> nat" where
  "digit_val c = of_char c - 48"

definition digit_char :: "nat \<Rightarrow> char" where
  "digit_char d = char_of (48 + d)"

text \<open>
  \<open>int(s)\<close> on a decimal literal: an optional sign, then digits, where a single
  underscore may stand between two digits. \<open>None\<close> is Python's \<open>ValueError\<close>.
\<close>

fun int_digits :: "nat \<Rightarrow> string \<Rightarrow> nat option" where
  "int_digits acc [] = Some acc"
| "int_digits acc [c] = (if is_digit c then Some (acc * 10 + digit_val c) else None)"
| "int_digits acc (c # d # ds) =
     (if is_digit c then int_digits (acc * 10 + digit_val c) (d # ds)
      else if c = CHR ''_'' \<and> is_digit d then int_digits (acc * 10 + digit_val d) ds
      else None)"

text \<open>
  CPython (3.11 and later, with the default of \<open>sys.int_max_str_digits\<close>) refuses a
  text with more than 4300 digits, also with a \<open>ValueError\<close>.
\<close>

definition max_str_digits :: nat where
  "max_str_digits = 4300"

definition int_unsigned :: "string \<Rightarrow> nat option" where
  "int_unsigned s =
     (if max_str_digits < length (filter is_digit s) then None
      else (case s of [] \<Rightarrow> None
            | c # cs \<Rightarrow> if is_digit c then int_digits (digit_val c) cs else None))"

definition py_int :: "string \<Rightarrow> int option" where
  "py_int s =
     (case strip s of [] \<Rightarrow> None
      | c # cs \<Rightarrow>
          if c = CHR ''-'' then map_option (\<lambda>n. - int n) (int_unsigned cs)
          else if c = CHR ''+'' then map_option int (int_unsigned cs)
          else map_option int (int_unsigned (c # cs)))"

text \<open>\<open>str(n)\<close> for an integer, as the f-strings and \<open>str(rce)\<close> print it.\<close>

fun str_nat :: "nat \<Rightarrow> string" where
  "str_nat n = (if n < 10 then [digit_char n] else str_nat (n div 10) @ [digit_char (n mod 10)])"

declare str_nat.simps [simp del]

definition str_int :: "int \<Rightarrow> string" where
  "str_int i = (if i < 0 then CHR ''-'' # str_nat (nat (- i)) else str_nat (nat i))"

text \<open>An \<open>Optional[int]\<close> inside an f-string.\<close>

definition str_opt :: "int option \<Rightarrow> string" where
  "str_opt v = (case v of None \<Rightarrow> ''None'' | Some i \<Rightarrow> str_int i)"

text \<open>An \<open>Optional[str]\<close> inside an f-string.\<close>

definition str_opt_text :: "string option \<Rightarrow> string" where
  "str_opt_text v = (case v of None \<Rightarrow> ''None'' | Some s \<Rightarrow> s)"

subsection \<open>Command line, input and the ways the process ends\<close>

text \<open>
  \<open>function_name\<close> and \<open>file_path\<close> are \<open>args.function\<close> and \<open>args.file\<close>,
  \<open>show_flag\<close> is \<open>args.show\<close>. In a condition, \<open>None\<close> and the empty string are
  false.
\<close>

record args =
  function_name :: "string option"
  file_path :: "string option"
  show_flag :: bool
  remove :: bool
  throttle :: bool
  do_set :: bool
  concurrency :: "int option"
  region :: "string option"
  dry_run :: bool

text \<open>
  The rows \<open>csv.reader\<close> yields: from standard input, and from each file that can be
  opened (\<open>None\<close> for a path that \<open>open\<close> rejects).
\<close>

record env =
  stdin :: "string list list"
  files :: "string \<Rightarrow> string list list option"

text \<open>
  An exception of the API client: a \<open>ClientError\<close> with the code and message of its
  response and its text, or any other exception with its text.
\<close>

datatype exn = ClientError "string option" "string option" string | OtherException string

fun exn_text :: "exn \<Rightarrow> string" where
  "exn_text (ClientError code msg t) = t"
| "exn_text (OtherException t) = t"

text \<open>
  How \<open>main\<close> ends: it returns, \<open>SystemExit\<close> is raised with a message or with a
  status, or an exception is not caught.
\<close>

datatype ending = Returned | SystemExit_msg string | SystemExit_code int | Uncaught exn

text \<open>The exit status of the process, by Python's rules.\<close>

fun exit_code :: "ending \<Rightarrow> int" where
  "exit_code Returned = 0"
| "exit_code (SystemExit_msg m) = 1"
| "exit_code (SystemExit_code n) = n"
| "exit_code (Uncaught e) = 1"

subsection \<open>Target resolution\<close>

type_synonym target = "string \<times> int option"

text \<open>
  \<open>repr(s)\<close> of a text without quotes, backslashes or control characters: the text
  between single quotes.
\<close>

definition py_repr :: "string \<Rightarrow> string" where
  "py_repr s = CHR 0x27 # s @ [CHR 0x27]"

definition invalid_value_msg :: "string \<Rightarrow> string" where
  "invalid_value_msg s = ''Invalid concurrency value (not an integer): '' @ py_repr s"

text \<open>\<open>parse_int_or_none\<close>; the message shows the stripped text.\<close>

definition parse_int_or_none :: "string option \<Rightarrow> ending + int option" where
  "parse_int_or_none s =
     (case s of None \<Rightarrow> Inr None
      | Some t \<Rightarrow>
          (let u = strip t in
           if u = [] then Inr None
           else (case py_int u of Some i \<Rightarrow> Inr (Some i)
                 | None \<Rightarrow> Inl (SystemExit_msg (invalid_value_msg u)))))"

text \<open>The header test of \<open>add_row\<close>, on the stripped name.\<close>

definition skipped :: "string \<Rightarrow> bool" where
  "skipped name = (name = [] \<or> startswith (lower name) ''function'')"

text \<open>\<open>add_row\<close>, with the list \<open>rows\<close> it appends to passed through.\<close>

definition add_row :: "bool \<Rightarrow> int option \<Rightarrow> target list \<Rightarrow> string \<Rightarrow> string option
    \<Rightarrow> ending + target list" where
  "add_row read_values conc rows name0 val_text =
     (let name = strip name0 in
      if skipped name then Inr rows
      else if read_values then
        (case parse_int_or_none val_text of
           Inl e \<Rightarrow> Inl e
         | Inr per_row \<Rightarrow>
             (case per_row of Some v \<Rightarrow> Inr (rows @ [(name, Some v)])
              | None \<Rightarrow> Inr (rows @ [(name, conc)])))
      else Inr (rows @ [(name, None)]))"

text \<open>The loop over the reader's rows; an empty row is skipped.\<close>

fun read_rows :: "bool \<Rightarrow> int option \<Rightarrow> target list \<Rightarrow> string list list \<Rightarrow> ending + target list" where
  "read_rows read_values conc rows [] = Inr rows"
| "read_rows read_values conc rows (parts # rest) =
     (case parts of
        [] \<Rightarrow> read_rows read_values conc rows rest
      | fn # cols \<Rightarrow>
          (case add_row read_values conc rows fn (case cols of [] \<Rightarrow> None | v # _ \<Rightarrow> Some v) of
             Inl e \<Rightarrow> Inl e
           | Inr rows' \<Rightarrow> read_rows read_values conc rows' rest))"

definition no_targets_msg :: string where
  "no_targets_msg = ''No function names provided. Use --function or --file (or --file - for STDIN).''"

definition iter_targets :: "args \<Rightarrow> env \<Rightarrow> bool \<Rightarrow> ending + target list" where
  "iter_targets a e read_values =
     (case (case function_name a of
              None \<Rightarrow> Inr []
            | Some f \<Rightarrow> if f = [] then Inr []
                       else add_row read_values (concurrency a) [] f None) of
        Inl x \<Rightarrow> Inl x
      | Inr rows1 \<Rightarrow>
          (case (case file_path a of
                   None \<Rightarrow> Inr rows1
                 | Some p \<Rightarrow>
                     if p = [] then Inr rows1
                     else if p = ''-'' then read_rows read_values (concurrency a) rows1 (stdin e)
                     else (case files e p of
                             None \<Rightarrow> Inl (Uncaught (OtherException p))
                           | Some rs \<Rightarrow> read_rows read_values (concurrency a) rows1 rs)) of
             Inl x \<Rightarrow> Inl x
           | Inr rows2 \<Rightarrow> if rows2 = [] then Inl (SystemExit_msg no_targets_msg) else Inr rows2))"

subsection \<open>The client of the remote API\<close>

text \<open>
  The three methods of the client, each on one function. The client is a parameter: a
  function from a call of one of its methods and the remote state to a response (a
  payload, or an exception) and the next state. It stands for the client library and the
  service behind it: an exception may come from the service, or from the library before
  any request is sent (as when it checks the parameters). A \<open>call\<close> is thus what the
  script hands to the client. The \<open>world\<close> holds the remote state and the trace of the
  calls made so far with their responses.
\<close>

datatype call = Get string | Put string int | Delete string

datatype response = Resp "int option" | Raise exn

type_synonym 'r api = "call \<Rightarrow> 'r \<Rightarrow> response \<times> 'r"

record 'r world =
  trace :: "(call \<times> response) list"
  remote :: 'r

definition invoke :: "'r api \<Rightarrow> call \<Rightarrow> 'r world \<Rightarrow> response \<times> 'r world" where
  "invoke api c w =
     (case api c (remote w) of
        (resp, r') \<Rightarrow> (resp, \<lparr>trace = trace w @ [(c, resp)], remote = r'\<rparr>))"

text \<open>A submitted task: it runs against the world and returns a value or raises.\<close>

type_synonym ('r, 'a) task = "'r world \<Rightarrow> (exn + 'a) \<times> 'r world"

definition set_reserved :: "'r api \<Rightarrow> string \<Rightarrow> int \<Rightarrow> ('r, string) task" where
  "set_reserved api fn v w =
     (case invoke api (Put fn v) w of
        (Raise x, w') \<Rightarrow> (Inl x, w')
      | (Resp _, w') \<Rightarrow> (Inr (''[SET   ] '' @ fn @ '': ReservedConcurrency='' @ str_int v), w'))"

definition delete_concurrency :: "'r api \<Rightarrow> string \<Rightarrow> ('r, string) task" where
  "delete_concurrency api fn w =
     (case invoke api (Delete fn) w of
        (Raise x, w') \<Rightarrow> (Inl x, w')
      | (Resp _, w') \<Rightarrow> (Inr (''[REMOVE] '' @ fn @ '': ReservedConcurrency removed''), w'))"

text \<open>
  \<open>get_reserved_concurrency\<close> catches a \<open>ClientError\<close> and returns it as the status;
  any other exception leaves the function.
\<close>

definition get_reserved_concurrency :: "'r api \<Rightarrow> string \<Rightarrow> ('r, string \<times> string) task" where
  "get_reserved_concurrency api fn w =
     (case invoke api (Get fn) w of
        (Resp None, w') \<Rightarrow> (Inr (fn, ''NONE (unlimited; uses account pool)''), w')
      | (Resp (Some rce), w') \<Rightarrow>
          (if rce = 0 then (Inr (fn, ''0 (DISABLED)''), w') else (Inr (fn, str_int rce), w'))
      | (Raise (ClientError code msg t), w') \<Rightarrow>
          (Inr (fn, ''ERROR: '' @ str_opt_text code @ '' - '' @ str_opt_text msg), w')
      | (Raise (OtherException t), w') \<Rightarrow> (Inl (OtherException t), w'))"

subsection \<open>The thread pool\<close>

text \<open>
  Tasks are submitted in the order of the targets and complete in an order the pool
  decides. The order is a parameter: a list of choices, each picking one of the tasks
  still pending (the rest, if the choices run out, complete in submission order). Every
  choice list gives a permutation of the submitted tasks. A task takes effect at the
  remote when it runs, in that order.
\<close>

function (sequential) schedule :: "nat list \<Rightarrow> 'a list \<Rightarrow> 'a list" where
  "schedule cs [] = []"
| "schedule [] xs = xs"
| "schedule (c # cs) (x # xs) =
     (let i = c mod length (x # xs)
      in (x # xs) ! i # schedule cs (take i (x # xs) @ drop (Suc i) (x # xs)))"
  by pat_completeness auto
termination
  by (relation "measure (\<lambda>(cs, xs). length xs)") auto

text \<open>Every submitted task runs to its end, whatever the earlier ones did.\<close>

fun run_tasks :: "('t \<times> ('r, 'a) task) list \<Rightarrow> 'r world \<Rightarrow> ('t \<times> (exn + 'a)) list \<times> 'r world" where
  "run_tasks [] w = ([], w)"
| "run_tasks ((tag, f) # ts) w =
     (case f w of
        (res, w') \<Rightarrow> (case run_tasks ts w' of (finished, w'') \<Rightarrow> ((tag, res) # finished, w'')))"

text \<open>The futures in the order \<open>as_completed\<close> yields them, each with its result.\<close>

definition as_completed :: "nat list \<Rightarrow> ('t \<times> ('r, 'a) task) list \<Rightarrow> 'r world
    \<Rightarrow> ('t \<times> (exn + 'a)) list \<times> 'r world" where
  "as_completed order tasks w = run_tasks (schedule order tasks) w"

subsection \<open>The modes of main\<close>

record 'r result =
  final :: "'r world"
  out :: "string list"
  err :: "string list"
  ended :: ending

definition calls :: "'r result \<Rightarrow> call list" where
  "calls res = map fst (trace (final res))"

definition stopped :: "'r world \<Rightarrow> ending \<Rightarrow> 'r result" where
  "stopped w x = \<lparr>final = w, out = [], err = [], ended = x\<rparr>"

text \<open>
  The loop of the show branch: \<open>fut.result()\<close> is not guarded, so the first exception
  it meets ends the loop and leaves \<open>main\<close>.
\<close>

fun show_loop :: "(string \<times> (exn + string \<times> string)) list \<Rightarrow> string list \<times> ending" where
  "show_loop [] = ([], Returned)"
| "show_loop ((tag, Inl x) # rest) = ([], Uncaught x)"
| "show_loop ((tag, Inr (fn, status)) # rest) =
     (case show_loop rest of
        (ls, en) \<Rightarrow> ((''[SHOW  ] '' @ fn @ '': '' @ status) # ls, en))"

definition show_mode :: "args \<Rightarrow> env \<Rightarrow> nat list \<Rightarrow> 'r api \<Rightarrow> 'r world \<Rightarrow> 'r result" where
  "show_mode a e order api w =
     (case iter_targets a e False of
        Inl x \<Rightarrow> stopped w x
      | Inr targets \<Rightarrow>
          (case as_completed order
                  (map (\<lambda>(fn, _). (fn, get_reserved_concurrency api fn)) targets) w of
             (finished, w') \<Rightarrow>
               (case show_loop finished of
                  (ls, en) \<Rightarrow> \<lparr>final = w', out = ls, err = [], ended = en\<rparr>)))"

text \<open>
  The loop of the three writing branches: a result is printed, an exception is printed
  to the error stream and sets \<open>had_error\<close>. \<open>label\<close> is what the error line shows of the
  future's entry in \<open>futs\<close>.
\<close>

fun collect :: "('t \<Rightarrow> string) \<Rightarrow> ('t \<times> (exn + string)) list \<Rightarrow> string list \<times> string list \<times> bool" where
  "collect label [] = ([], [], False)"
| "collect label ((tag, Inr line) # rest) =
     (case collect label rest of (ls, es, had_error) \<Rightarrow> (line # ls, es, had_error))"
| "collect label ((tag, Inl x) # rest) =
     (case collect label rest of
        (ls, es, had_error) \<Rightarrow> (ls, (''[ERROR ] '' @ label tag @ '': '' @ exn_text x) # es, True))"

definition live_run :: "('t \<Rightarrow> string) \<Rightarrow> nat list \<Rightarrow> ('t \<times> ('r, string) task) list \<Rightarrow> 'r world
    \<Rightarrow> 'r result" where
  "live_run label order tasks w =
     (case as_completed order tasks w of
        (finished, w') \<Rightarrow>
          (case collect label finished of
             (ls, es, had_error) \<Rightarrow>
               \<lparr>final = w', out = ls, err = es,
                ended = (if had_error then SystemExit_code 1 else Returned)\<rparr>))"

definition remove_mode :: "args \<Rightarrow> env \<Rightarrow> nat list \<Rightarrow> 'r api \<Rightarrow> 'r world \<Rightarrow> 'r result" where
  "remove_mode a e order api w =
     (case iter_targets a e False of
        Inl x \<Rightarrow> stopped w x
      | Inr targets \<Rightarrow>
          if dry_run a then
            \<lparr>final = w, out = map (\<lambda>(fn, _). ''[DRYRUN REMOVE] '' @ fn) targets, err = [],
             ended = Returned\<rparr>
          else live_run (\<lambda>fn. fn) order
                 (map (\<lambda>(fn, _). (fn, delete_concurrency api fn)) targets) w)"

definition throttle_mode :: "args \<Rightarrow> env \<Rightarrow> nat list \<Rightarrow> 'r api \<Rightarrow> 'r world \<Rightarrow> 'r result" where
  "throttle_mode a e order api w =
     (case iter_targets a e False of
        Inl x \<Rightarrow> stopped w x
      | Inr targets \<Rightarrow>
          if dry_run a then
            \<lparr>final = w, out = map (\<lambda>(fn, _). ''[DRYRUN SET] '' @ fn @ '' -> 0'') targets, err = [],
             ended = Returned\<rparr>
          else live_run (\<lambda>fn. fn) order
                 (map (\<lambda>(fn, _). (fn, set_reserved api fn 0)) targets) w)"

definition missing_of :: "target list \<Rightarrow> string list" where
  "missing_of targets = map fst (filter (\<lambda>(fn, v). v = None) targets)"

definition miss_str :: "string list \<Rightarrow> string" where
  "miss_str missing = join '', '' (take 5 missing) @ (if length missing > 5 then ''...'' else [])"

definition set_missing_msg :: "string list \<Rightarrow> string" where
  "set_missing_msg missing =
     ''--set requires a concurrency value per-row or via --concurrency; missing for: ''
       @ miss_str missing"

text \<open>
  The dispatch of the set branch. A target without a value never reaches it (the check
  on \<open>missing\<close> ends the run first); for such a value the client refuses the parameter
  before it sends anything.
\<close>

definition set_task :: "'r api \<Rightarrow> target \<Rightarrow> ('r, string) task" where
  "set_task api t =
     (case t of
        (fn, Some v) \<Rightarrow> if v = - 1 then delete_concurrency api fn else set_reserved api fn v
      | (fn, None) \<Rightarrow> (\<lambda>w. (Inl (OtherException ''ParamValidationError''), w)))"

definition set_mode :: "args \<Rightarrow> env \<Rightarrow> nat list \<Rightarrow> 'r api \<Rightarrow> 'r world \<Rightarrow> 'r result" where
  "set_mode a e order api w =
     (case iter_targets a e True of
        Inl x \<Rightarrow> stopped w x
      | Inr targets \<Rightarrow>
          if missing_of targets \<noteq> [] then
            stopped w (SystemExit_msg (set_missing_msg (missing_of targets)))
          else if dry_run a then
            \<lparr>final = w,
             out = map (\<lambda>(fn, v). if v = Some (- 1) then ''[DRYRUN REMOVE] '' @ fn
                                   else ''[DRYRUN SET] '' @ fn @ '' -> '' @ str_opt v) targets,
             err = [], ended = Returned\<rparr>
          else live_run (\<lambda>(fn, v). fn @ '' (target '' @ str_opt v @ '')'') order
                 (map (\<lambda>t. (t, set_task api t)) targets) w)"

subsection \<open>main\<close>

definition mode_msg :: string where
  "mode_msg = ''You must specify exactly one mode: --remove, --throttle, or --set (or use --show).''"

text \<open>The keys of \<open>mode_flags\<close> whose flag is set, in the order of the dictionary.\<close>

definition chosen :: "args \<Rightarrow> string list" where
  "chosen a = map fst (filter snd
     [(''remove'', remove a), (''throttle'', throttle a), (''set'', do_set a)])"

text \<open>
  \<open>make_client(region)\<close> returns the client or raises (as it does when no region is
  given and none is configured); what it does for each region is a parameter.
\<close>

type_synonym 'r make_client = "string option \<Rightarrow> exn + 'r api"

text \<open>
  \<open>main\<close> after the command line is parsed; \<open>r0\<close> is the state of the remote service
  when the run starts. The client is made first, before any flag is looked at; an
  exception there is not caught.
\<close>

definition main :: "args \<Rightarrow> env \<Rightarrow> nat list \<Rightarrow> 'r make_client \<Rightarrow> 'r \<Rightarrow> 'r result" where
  "main a e order make_client r0 =
     (let w = \<lparr>trace = [], remote = r0\<rparr> in
      case make_client (region a) of
        Inl x \<Rightarrow> stopped w (Uncaught x)
      | Inr client \<Rightarrow>
          if show_flag a then show_mode a e order client w
          else (case chosen a of
                  [mode] \<Rightarrow>
                    if mode = ''remove'' then remove_mode a e order client w
                    else if mode = ''throttle'' then throttle_mode a e order client w
                    else if mode = ''set'' then set_mode a e order client w
                    else stopped w Returned
                | _ \<Rightarrow> stopped w (SystemExit_msg mode_msg)))"

subsection \<open>What the specification says of target resolution\<close>

text \<open>
  The specification's reading of the input, written without the script's accumulator and
  error plumbing: the rows offered to \<open>add_row\<close>, the names that stay, and the value
  each name resolves to in set mode. The theorems below compare \<open>iter_targets\<close> with
  these.
\<close>

definition file_rows :: "args \<Rightarrow> env \<Rightarrow> string list list option" where
  "file_rows a e =
     (case file_path a of
        None \<Rightarrow> Some []
      | Some p \<Rightarrow> if p = [] then Some [] else if p = ''-'' then Some (stdin e) else files e p)"

text \<open>A single name from the command line counts as a row with one column.\<close>

definition source_rows :: "args \<Rightarrow> env \<Rightarrow> string list list option" where
  "source_rows a e =
     map_option (\<lambda>rs. (case function_name a of None \<Rightarrow> [] | Some f \<Rightarrow> [[f]]) @ rs) (file_rows a e)"

text \<open>
  Blank rows, rows whose trimmed name is empty and rows whose trimmed name starts with
  "function" in any letter case are left out; the other names stay, trimmed.
\<close>

fun kept_names :: "string list list \<Rightarrow> string list" where
  "kept_names [] = []"
| "kept_names ([] # rest) = kept_names rest"
| "kept_names ((fn # cols) # rest) =
     (if strip fn = [] \<or> startswith (lower (strip fn)) ''function'' then kept_names rest
      else strip fn # kept_names rest)"

text \<open>The integer in the second column of a row, if there is one.\<close>

definition row_value :: "string list \<Rightarrow> int option" where
  "row_value cols = (case cols of [] \<Rightarrow> None | v # _ \<Rightarrow> py_int v)"

text \<open>Set mode: the row's value if it has one, else the default \<open>d\<close>.\<close>

fun set_targets :: "int option \<Rightarrow> string list list \<Rightarrow> target list" where
  "set_targets d [] = []"
| "set_targets d ([] # rest) = set_targets d rest"
| "set_targets d ((fn # cols) # rest) =
     (if strip fn = [] \<or> startswith (lower (strip fn)) ''function'' then set_targets d rest
      else (strip fn, (case row_value cols of Some v \<Rightarrow> Some v | None \<Rightarrow> d)) # set_targets d rest)"

text \<open>The call the set branch makes for a resolved target.\<close>

fun set_call :: "string \<times> int \<Rightarrow> call" where
  "set_call (fn, v) = (if v = - 1 then Delete fn else Put fn v)"

text \<open>A response that is an exception: the operation failed.\<close>

fun failed :: "response \<Rightarrow> bool" where
  "failed (Raise x) = True"
| "failed (Resp v) = False"

definition any_failed :: "'r result \<Rightarrow> bool" where
  "any_failed res = list_ex (\<lambda>(c, resp). failed resp) (trace (final res))"

text \<open>The one mode selected when \<open>--show\<close> is absent.\<close>

definition only_remove :: "args \<Rightarrow> bool" where
  "only_remove a = (\<not> show_flag a \<and> remove a \<and> \<not> throttle a \<and> \<not> do_set a)"

definition only_throttle :: "args \<Rightarrow> bool" where
  "only_throttle a = (\<not> show_flag a \<and> \<not> remove a \<and> throttle a \<and> \<not> do_set a)"

definition only_set :: "args \<Rightarrow> bool" where
  "only_set a = (\<not> show_flag a \<and> \<not> remove a \<and> \<not> throttle a \<and> do_set a)"

text \<open>The targets that carry a value, after the check on \<open>missing\<close>.\<close>

fun resolved :: "target list \<Rightarrow> (string \<times> int) list" where
  "resolved [] = []"
| "resolved ((fn, Some v) # ts) = (fn, v) # resolved ts"
| "resolved ((fn, None) # ts) = resolved ts"

text \<open>
  A task performs the call \<open>c\<close>: whatever the world, it adds exactly this call to the
  trace, and it raises exactly when the response is one of \<open>bad\<close>.
\<close>

definition performs :: "(response \<Rightarrow> bool) \<Rightarrow> ('r, 'a) task \<Rightarrow> call \<Rightarrow> bool" where
  "performs bad f c =
     (\<forall>w. \<exists>resp. trace (snd (f w)) = trace w @ [(c, resp)] \<and> isl (fst (f w)) = bad resp)"

text \<open>The responses \<open>get_reserved_concurrency\<close> does not catch.\<close>

fun uncaught :: "response \<Rightarrow> bool" where
  "uncaught (Raise (OtherException t)) = True"
| "uncaught (Raise (ClientError code msg t)) = False"
| "uncaught (Resp v) = False"

definition any_uncaught :: "'r result \<Rightarrow> bool" where
  "any_uncaught res = list_ex (\<lambda>(c, resp). uncaught resp) (trace (final res))"

text \<open>The status the show branch prints for a response that the read does not raise.\<close>

fun show_status :: "response \<Rightarrow> string" where
  "show_status (Resp None) = ''NONE (unlimited; uses account pool)''"
| "show_status (Resp (Some rce)) = (if rce = 0 then ''0 (DISABLED)'' else str_int rce)"
| "show_status (Raise (ClientError code msg t)) =
     ''ERROR: '' @ str_opt_text code @ '' - '' @ str_opt_text msg"
| "show_status (Raise (OtherException t)) = []"

text \<open>The function a call is about.\<close>

fun call_name :: "call \<Rightarrow> string" where
  "call_name (Get fn) = fn"
| "call_name (Put fn v) = fn"
| "call_name (Delete fn) = fn"

text \<open>The line the show branch prints for a read and its response.\<close>

definition show_line :: "call \<times> response \<Rightarrow> string" where
  "show_line p = ''[SHOW  ] '' @ call_name (fst p) @ '': '' @ show_status (snd p)"

text \<open>
  The configuration of a run without \<open>--show\<close> is in order: the client is made, one
  mode is selected, the targets resolve and, in set mode, each has a value.
\<close>

definition config_ok :: "args \<Rightarrow> env \<Rightarrow> 'r make_client \<Rightarrow> bool" where
  "config_ok a e make_client =
     ((case make_client (region a) of Inl x \<Rightarrow> False | Inr client \<Rightarrow> True)
      \<and> (only_remove a \<or> only_throttle a \<or> only_set a)
      \<and> (case iter_targets a e (do_set a) of
            Inl x \<Rightarrow> False
          | Inr ts \<Rightarrow> if do_set a then missing_of ts = [] else True))"

subsection \<open>Example inputs\<close>

text \<open>
  The scenario of the specification: the file holds the rows \<open>a,5\<close>, \<open>b\<close> and
  \<open>c,-1\<close>, the mode is set and the default is 3.
\<close>

definition scenario_args :: args where
  "scenario_args =
     \<lparr>function_name = None, file_path = Some ''funcs.csv'', show_flag = False, remove = False,
      throttle = False, do_set = True, concurrency = Some 3, region = None, dry_run = False\<rparr>"

definition scenario_env :: env where
  "scenario_env =
     \<lparr>stdin = [],
      files = (\<lambda>p. if p = ''funcs.csv'' then Some [[''a'', ''5''], [''b''], [''c'', ''-1'']]
                   else None)\<rparr>"

text \<open>A file with a header line, a blank line, a blank name and padded names.\<close>

definition header_env :: env where
  "header_env =
     \<lparr>stdin = [[''Function'', ''concurrency''], [], [''  '', ''4''], ['' a '', ''-2''],
               [''FUNCTIONS-x''], [''b'', ''0'']],
      files = (\<lambda>p. None)\<rparr>"

definition single_args :: args where
  "single_args =
     \<lparr>function_name = Some ''f'', file_path = None, show_flag = False, remove = False,
      throttle = False, do_set = False, concurrency = None, region = None, dry_run = False\<rparr>"

text \<open>A client that accepts every call, and one that refuses every call.\<close>

definition api_ok :: "unit api" where
  "api_ok c r = (Resp None, r)"

definition api_denied :: "unit api" where
  "api_denied c r =
     (Raise (ClientError (Some ''AccessDeniedException'') (Some ''denied'') ''denied''), r)"

text \<open>
  A client that refuses a negative value before it sends anything, as the library does
  for this parameter, and accepts every other call.
\<close>

definition api_checked :: "unit api" where
  "api_checked c r =
     (case c of
        Put fn v \<Rightarrow> if v < 0 then (Raise (OtherException ''ParamValidationError''), r)
                    else (Resp None, r)
      | _ \<Rightarrow> (Resp None, r))"

text \<open>Making the client: it succeeds for every region, or fails when no region is given.\<close>

definition client_ok :: "unit make_client" where
  "client_ok r = Inr api_ok"

definition client_denied :: "unit make_client" where
  "client_denied r = Inr api_denied"

definition client_checked :: "unit make_client" where
  "client_checked r = Inr api_checked"

definition client_no_region :: "unit make_client" where
  "client_no_region r =
     (case r of None \<Rightarrow> Inl (OtherException ''NoRegionError'') | Some x \<Rightarrow> Inr api_ok)"


section \<open>Properties\<close>

subsection \<open>The schedule is a permutation\<close>

lemma mset_schedule: "mset (schedule cs xs) = mset xs"
proof (induction cs xs rule: schedule.induct)
  case (3 c cs x xs)
  define ys where "ys = x # xs"
  define i where "i = c mod length ys"
  have i: "i < length ys" by (simp add: i_def ys_def)
  have "mset ys = mset (take i ys @ ys ! i # drop (Suc i) ys)"
    using i by (simp add: id_take_nth_drop [symmetric])
  then have "mset ys = add_mset (ys ! i) (mset (take i ys @ drop (Suc i) ys))" by simp
  moreover have "mset (schedule cs (take i ys @ drop (Suc i) ys)) = mset (take i ys @ drop (Suc i) ys)"
    using "3.IH" [of i] by (simp add: i_def ys_def)
  ultimately show ?case by (simp add: Let_def ys_def i_def)
qed simp_all

lemma set_schedule: "set (schedule cs xs) = set xs"
  by (metis mset_schedule set_mset_mset)

lemma length_schedule: "length (schedule cs xs) = length xs"
  by (metis mset_schedule size_mset)

lemma schedule_map: "schedule cs (map f xs) = map f (schedule cs xs)"
proof (induction cs xs rule: schedule.induct)
  case (3 c cs x xs)
  define ys where "ys = x # xs"
  define i where "i = c mod length ys"
  have i: "i < length ys" by (simp add: i_def ys_def)
  have ih: "schedule cs (map f (take i ys @ drop (Suc i) ys)) = map f (schedule cs (take i ys @ drop (Suc i) ys))"
    using "3.IH" [of i] by (simp add: i_def ys_def)
  have "schedule (c # cs) (map f ys) = map f ys ! i # schedule cs (take i (map f ys) @ drop (Suc i) (map f ys))"
    by (simp add: ys_def i_def Let_def)
  also have "\<dots> = f (ys ! i) # schedule cs (map f (take i ys @ drop (Suc i) ys))"
    using i by (simp add: take_map drop_map)
  also have "\<dots> = map f (schedule (c # cs) ys)"
    using ih by (simp add: ys_def i_def Let_def)
  finally show ?case by (simp add: ys_def)
qed simp_all

subsection \<open>Target resolution against the specification\<close>

lemma add_row_no_value:
  "add_row rv d acc fn None =
     (if strip fn = [] \<or> startswith (lower (strip fn)) ''function'' then Inr acc
      else Inr (acc @ [(strip fn, if rv then d else None)]))"
  by (simp add: add_row_def skipped_def parse_int_or_none_def Let_def)

lemma strip_idem: "strip (strip s) = strip s"
proof -
  define u where "u = dropWhile is_space s"
  define t where "t = rev (dropWhile is_space (rev u))"
  have split: "u = t @ rev (takeWhile is_space (rev u))"
  proof -
    have "t @ rev (takeWhile is_space (rev u))
        = rev (takeWhile is_space (rev u) @ dropWhile is_space (rev u))"
      by (simp only: rev_append t_def)
    also have "\<dots> = u" by simp
    finally show ?thesis by simp
  qed
  have front: "dropWhile is_space t = t"
  proof (cases "t = []")
    case True
    then show ?thesis by simp
  next
    case False
    with split have "hd t = hd u" and "u \<noteq> []" by (metis hd_append2, metis append_is_Nil_conv)
    moreover from \<open>u \<noteq> []\<close> have "\<not> is_space (hd u)" unfolding u_def by (rule hd_dropWhile)
    ultimately show ?thesis by (simp add: dropWhile_eq_self_iff)
  qed
  have "strip t = rev (dropWhile is_space (rev t))" by (simp add: strip_def front)
  also have "\<dots> = t" by (simp add: t_def)
  finally show ?thesis by (simp add: strip_def t_def u_def)
qed

lemma py_int_strip: "py_int (strip s) = py_int s"
  by (simp add: py_int_def strip_idem)

lemma py_int_blank: "strip s = [] \<Longrightarrow> py_int s = None"
  by (simp add: py_int_def)

lemma parse_int_or_none_Inr:
  "parse_int_or_none (Some v) = Inr r \<Longrightarrow> r = py_int v"
proof (cases "strip v = []")
  case True
  assume "parse_int_or_none (Some v) = Inr r"
  with True show ?thesis by (simp add: parse_int_or_none_def py_int_blank)
next
  case False
  assume "parse_int_or_none (Some v) = Inr r"
  with False have "r = py_int (strip v)"
    by (cases "py_int (strip v)") (simp_all add: parse_int_or_none_def Let_def)
  then show ?thesis by (simp add: py_int_strip)
qed

lemma read_rows_False:
  "read_rows False d acc rs = Inr (acc @ map (\<lambda>n. (n, None)) (kept_names rs))"
proof (induction rs arbitrary: acc rule: kept_names.induct)
  case (3 fn cols rest)
  then show ?case by (simp add: add_row_def skipped_def Let_def)
qed simp_all

lemma add_row_True_kept:
  "\<not> (strip fn = [] \<or> startswith (lower (strip fn)) ''function'') \<Longrightarrow>
   add_row True d acc fn vt =
     (case parse_int_or_none vt of
        Inl x \<Rightarrow> Inl x
      | Inr r \<Rightarrow> Inr (acc @ [(strip fn, case r of Some x \<Rightarrow> Some x | None \<Rightarrow> d)]))"
  by (simp add: add_row_def skipped_def Let_def split: sum.split option.split)

lemma add_row_skipped:
  "strip fn = [] \<or> startswith (lower (strip fn)) ''function'' \<Longrightarrow> add_row rv d acc fn vt = Inr acc"
  by (simp add: add_row_def skipped_def Let_def)

lemma parse_column:
  "parse_int_or_none (case cols of [] \<Rightarrow> None | v # _ \<Rightarrow> Some v) = Inr r \<Longrightarrow> r = row_value cols"
proof (cases cols)
  case Nil
  assume "parse_int_or_none (case cols of [] \<Rightarrow> None | v # _ \<Rightarrow> Some v) = Inr r"
  with Nil show ?thesis by (simp add: parse_int_or_none_def row_value_def)
next
  case (Cons v vs)
  assume "parse_int_or_none (case cols of [] \<Rightarrow> None | v # _ \<Rightarrow> Some v) = Inr r"
  with Cons have "parse_int_or_none (Some v) = Inr r" by simp
  then have "r = py_int v" by (rule parse_int_or_none_Inr)
  with Cons show ?thesis by (simp add: row_value_def)
qed

lemma read_rows_True:
  "read_rows True d acc rs = Inr ts \<Longrightarrow> ts = acc @ set_targets d rs"
proof (induction rs arbitrary: acc rule: kept_names.induct)
  case 1
  then show ?case by simp
next
  case (2 rest)
  from "2.prems" have "read_rows True d acc rest = Inr ts" by simp
  from "2.IH" [OF this] show ?case by simp
next
  case (3 fn cols rest)
  let ?vt = "case cols of [] \<Rightarrow> None | v # _ \<Rightarrow> Some v"
  show ?case
  proof (cases "strip fn = [] \<or> startswith (lower (strip fn)) ''function''")
    case True
    then have "add_row True d acc fn ?vt = Inr acc" by (rule add_row_skipped)
    with "3.prems" have "read_rows True d acc rest = Inr ts" by simp
    from "3.IH"(1) [OF True this] True show ?thesis by simp
  next
    case False
    note kept = add_row_True_kept [OF False, of d acc ?vt]
    show ?thesis
    proof (cases "parse_int_or_none ?vt")
      case (Inl x)
      with kept "3.prems" show ?thesis by simp
    next
      case (Inr r)
      then have r: "r = row_value cols" by (rule parse_column)
      from Inr kept "3.prems"
      have "read_rows True d (acc @ [(strip fn, case r of Some x \<Rightarrow> Some x | None \<Rightarrow> d)]) rest = Inr ts"
        by simp
      from "3.IH"(2) [OF False this] False r show ?thesis by simp
    qed
  qed
qed

lemma names_set_targets: "map fst (set_targets d rs) = kept_names rs"
  by (induction rs rule: kept_names.induct) simp_all

lemma iter_targets_rows:
  "source_rows a e = Some rs \<Longrightarrow>
   iter_targets a e rv =
     (case read_rows rv (concurrency a) [] rs of
        Inl x \<Rightarrow> Inl x
      | Inr ts \<Rightarrow> if ts = [] then Inl (SystemExit_msg no_targets_msg) else Inr ts)"
  by (auto simp: iter_targets_def source_rows_def file_rows_def add_row_no_value strip_def
      split: option.splits if_splits)

lemma iter_targets_Inr_rows:
  "iter_targets a e rv = Inr ts \<Longrightarrow> \<exists>rs. source_rows a e = Some rs"
  by (auto simp: iter_targets_def source_rows_def file_rows_def split: option.splits if_splits sum.splits)

lemma iter_targets_False:
  "source_rows a e = Some rs \<Longrightarrow>
   iter_targets a e False =
     (if kept_names rs = [] then Inl (SystemExit_msg no_targets_msg)
      else Inr (map (\<lambda>n. (n, None)) (kept_names rs)))"
  by (simp add: iter_targets_rows read_rows_False)

lemma iter_targets_True:
  assumes "iter_targets a e True = Inr ts"
  shows "\<exists>rs. source_rows a e = Some rs \<and> ts = set_targets (concurrency a) rs \<and> ts \<noteq> []"
proof -
  from assms obtain rs where rs: "source_rows a e = Some rs"
    using iter_targets_Inr_rows by blast
  from assms iter_targets_rows [OF rs, of True]
  have "read_rows True (concurrency a) [] rs = Inr ts \<and> ts \<noteq> []"
    by (cases "read_rows True (concurrency a) [] rs") (auto split: if_splits)
  with read_rows_True [of "concurrency a" "[]" rs ts] rs show ?thesis by simp
qed

lemma read_rows_no_names:
  "kept_names rs = [] \<Longrightarrow> read_rows rv d acc rs = Inr acc"
proof (induction rs rule: kept_names.induct)
  case (3 fn cols rest)
  then show ?case by (simp add: add_row_skipped split: if_splits)
qed simp_all

lemma iter_targets_no_names:
  "source_rows a e = Some rs \<Longrightarrow> kept_names rs = [] \<Longrightarrow>
   iter_targets a e rv = Inl (SystemExit_msg no_targets_msg)"
  by (simp add: iter_targets_rows read_rows_no_names)

lemma iter_targets_names:
  assumes "iter_targets a e rv = Inr ts"
  shows "\<exists>rs. source_rows a e = Some rs \<and> map fst ts = kept_names rs"
proof (cases rv)
  case True
  with assms iter_targets_True [of a e ts] show ?thesis
    by (auto simp: names_set_targets)
next
  case False
  from assms obtain rs where rs: "source_rows a e = Some rs"
    using iter_targets_Inr_rows by blast
  with assms False iter_targets_False [OF rs] show ?thesis
    by (auto simp: comp_def split: if_splits)
qed

subsection \<open>Tasks, the pool and the modes\<close>

lemma invoke_trace:
  "invoke api c w = (resp, w') \<Longrightarrow> trace w' = trace w @ [(c, resp)]"
  by (auto simp: invoke_def split: prod.splits)

lemma performs_set_reserved: "performs failed (set_reserved api fn v) (Put fn v)"
  unfolding performs_def
proof
  fix w
  obtain resp w' where i: "invoke api (Put fn v) w = (resp, w')" by (cases "invoke api (Put fn v) w")
  from i have "trace w' = trace w @ [(Put fn v, resp)]" by (rule invoke_trace)
  with i have "trace (snd (set_reserved api fn v w)) = trace w @ [(Put fn v, resp)]
      \<and> isl (fst (set_reserved api fn v w)) = failed resp"
    by (cases resp) (simp_all add: set_reserved_def)
  then show "\<exists>resp. trace (snd (set_reserved api fn v w)) = trace w @ [(Put fn v, resp)]
      \<and> isl (fst (set_reserved api fn v w)) = failed resp" ..
qed

lemma performs_delete_concurrency: "performs failed (delete_concurrency api fn) (Delete fn)"
  unfolding performs_def
proof
  fix w
  obtain resp w' where i: "invoke api (Delete fn) w = (resp, w')" by (cases "invoke api (Delete fn) w")
  from i have "trace w' = trace w @ [(Delete fn, resp)]" by (rule invoke_trace)
  with i have "trace (snd (delete_concurrency api fn w)) = trace w @ [(Delete fn, resp)]
      \<and> isl (fst (delete_concurrency api fn w)) = failed resp"
    by (cases resp) (simp_all add: delete_concurrency_def)
  then show "\<exists>resp. trace (snd (delete_concurrency api fn w)) = trace w @ [(Delete fn, resp)]
      \<and> isl (fst (delete_concurrency api fn w)) = failed resp" ..
qed

lemma performs_get: "performs uncaught (get_reserved_concurrency api fn) (Get fn)"
  unfolding performs_def
proof
  fix w
  obtain resp w' where i: "invoke api (Get fn) w = (resp, w')" by (cases "invoke api (Get fn) w")
  from i have t: "trace w' = trace w @ [(Get fn, resp)]" by (rule invoke_trace)
  have "trace (snd (get_reserved_concurrency api fn w)) = trace w @ [(Get fn, resp)]
      \<and> isl (fst (get_reserved_concurrency api fn w)) = uncaught resp"
  proof (cases resp)
    case (Resp v)
    with i t show ?thesis by (cases v) (simp_all add: get_reserved_concurrency_def)
  next
    case (Raise x)
    with i t show ?thesis by (cases x) (simp_all add: get_reserved_concurrency_def)
  qed
  then show "\<exists>resp. trace (snd (get_reserved_concurrency api fn w)) = trace w @ [(Get fn, resp)]
      \<and> isl (fst (get_reserved_concurrency api fn w)) = uncaught resp" ..
qed

lemma performs_set_task:
  "performs failed (set_task api (fn, Some v)) (set_call (fn, v))"
  by (simp add: set_task_def performs_set_reserved performs_delete_concurrency)

lemma run_tasks_performs:
  assumes "\<forall>y \<in> set ys. performs bad (g y) (c y)"
  shows "\<exists>tr. trace (snd (run_tasks (map (\<lambda>y. (k y, g y)) ys) w)) = trace w @ tr
           \<and> map fst tr = map c ys
           \<and> list_ex (\<lambda>p. isl (snd p)) (fst (run_tasks (map (\<lambda>y. (k y, g y)) ys) w))
               = list_ex (\<lambda>(c, resp). bad resp) tr"
  using assms
proof (induction ys arbitrary: w)
  case Nil
  then show ?case by simp
next
  case (Cons y ys)
  obtain res w1 where f: "g y w = (res, w1)" by (cases "g y w")
  from Cons.prems have "performs bad (g y) (c y)" by simp
  then obtain resp where r: "trace (snd (g y w)) = trace w @ [(c y, resp)]"
      and b: "isl (fst (g y w)) = bad resp"
    unfolding performs_def by blast
  from Cons.prems have "\<forall>z \<in> set ys. performs bad (g z) (c z)" by simp
  from Cons.IH [OF this, of w1] obtain tr where
    t: "trace (snd (run_tasks (map (\<lambda>y. (k y, g y)) ys) w1)) = trace w1 @ tr"
    and m: "map fst tr = map c ys"
    and l: "list_ex (\<lambda>p. isl (snd p)) (fst (run_tasks (map (\<lambda>y. (k y, g y)) ys) w1))
               = list_ex (\<lambda>(c, resp). bad resp) tr"
    by blast
  obtain fin w2 where rt: "run_tasks (map (\<lambda>y. (k y, g y)) ys) w1 = (fin, w2)"
    by (cases "run_tasks (map (\<lambda>y. (k y, g y)) ys) w1")
  let ?tr = "(c y, resp) # tr"
  from f r b t m l rt
  have "trace (snd (run_tasks (map (\<lambda>y. (k y, g y)) (y # ys)) w)) = trace w @ ?tr
           \<and> map fst ?tr = map c (y # ys)
           \<and> list_ex (\<lambda>p. isl (snd p)) (fst (run_tasks (map (\<lambda>y. (k y, g y)) (y # ys)) w))
               = list_ex (\<lambda>(c, resp). bad resp) ?tr"
    by simp
  then show ?case by blast
qed

lemma collect_had_error:
  "collect label fin = (ls, es, h) \<Longrightarrow> h = list_ex (\<lambda>p. isl (snd p)) fin"
  by (induction label fin arbitrary: ls es h rule: collect.induct) (auto split: prod.splits)

lemma show_loop_ended:
  "exit_code (snd (show_loop fin)) = (if list_ex (\<lambda>p. isl (snd p)) fin then 1 else 0)"
  by (induction fin rule: show_loop.induct) (auto split: prod.splits)

lemma live_run_calls:
  assumes p: "\<forall>y \<in> set ys. performs failed (g y) (c y)" and w: "trace w = []"
  shows "calls (live_run label order (map (\<lambda>y. (k y, g y)) ys) w) = map c (schedule order ys)
       \<and> ended (live_run label order (map (\<lambda>y. (k y, g y)) ys) w)
           = (if any_failed (live_run label order (map (\<lambda>y. (k y, g y)) ys) w)
              then SystemExit_code 1 else Returned)"
proof -
  let ?zs = "schedule order ys"
  let ?run = "run_tasks (map (\<lambda>y. (k y, g y)) ?zs) w"
  have sm: "as_completed order (map (\<lambda>y. (k y, g y)) ys) w = ?run"
    by (simp add: as_completed_def schedule_map)
  from p have "\<forall>y \<in> set ?zs. performs failed (g y) (c y)" by (simp add: set_schedule)
  from run_tasks_performs [OF this, of k w] w obtain tr where
    t: "trace (snd ?run) = tr" and m: "map fst tr = map c ?zs"
    and l: "list_ex (\<lambda>p. isl (snd p)) (fst ?run) = list_ex (\<lambda>(c, resp). failed resp) tr"
    by auto
  obtain fin w' where rt: "?run = (fin, w')" by (cases ?run)
  obtain ls es h where co: "collect label fin = (ls, es, h)" by (cases "collect label fin")
  from co have h: "h = list_ex (\<lambda>p. isl (snd p)) fin" by (rule collect_had_error)
  have lr: "live_run label order (map (\<lambda>y. (k y, g y)) ys) w
      = \<lparr>final = w', out = ls, err = es, ended = (if h then SystemExit_code 1 else Returned)\<rparr>"
    by (simp add: live_run_def sm rt co)
  from t m l rt h show ?thesis
    by (simp add: lr calls_def any_failed_def)
qed

lemma chosen_remove: "only_remove a \<Longrightarrow> chosen a = [''remove'']"
  by (simp add: only_remove_def chosen_def)

lemma chosen_throttle: "only_throttle a \<Longrightarrow> chosen a = [''throttle'']"
  by (simp add: only_throttle_def chosen_def)

lemma chosen_set: "only_set a \<Longrightarrow> chosen a = [''set'']"
  by (simp add: only_set_def chosen_def)

lemma main_no_client:
  "mk (region a) = Inl x \<Longrightarrow>
   main a e order mk r0 = stopped \<lparr>trace = [], remote = r0\<rparr> (Uncaught x)"
  by (simp add: main_def)

lemma main_show:
  "mk (region a) = Inr api \<Longrightarrow> show_flag a \<Longrightarrow>
   main a e order mk r0 = show_mode a e order api \<lparr>trace = [], remote = r0\<rparr>"
  by (simp add: main_def)

lemma main_remove:
  "mk (region a) = Inr api \<Longrightarrow> only_remove a \<Longrightarrow>
   main a e order mk r0 = remove_mode a e order api \<lparr>trace = [], remote = r0\<rparr>"
  by (simp add: main_def chosen_def only_remove_def)

lemma main_throttle:
  "mk (region a) = Inr api \<Longrightarrow> only_throttle a \<Longrightarrow>
   main a e order mk r0 = throttle_mode a e order api \<lparr>trace = [], remote = r0\<rparr>"
  by (simp add: main_def chosen_def only_throttle_def)

lemma main_set:
  "mk (region a) = Inr api \<Longrightarrow> only_set a \<Longrightarrow>
   main a e order mk r0 = set_mode a e order api \<lparr>trace = [], remote = r0\<rparr>"
  by (simp add: main_def chosen_def only_set_def)

lemma calls_stopped: "calls (stopped \<lparr>trace = [], remote = r0\<rparr> x) = []"
  by (simp add: calls_def stopped_def)

lemma show_mode_stop:
  "iter_targets a e False = Inl x \<Longrightarrow> show_mode a e order api w = stopped w x"
  by (simp add: show_mode_def)

lemma show_mode_calls:
  assumes it: "iter_targets a e False = Inr ts" and w: "trace w = []"
  shows "calls (show_mode a e order api w) = map Get (schedule order (map fst ts))"
proof -
  let ?g = "\<lambda>y :: target. get_reserved_concurrency api (fst y)"
  let ?zs = "schedule order ts"
  let ?run = "run_tasks (map (\<lambda>y. (fst y, ?g y)) ?zs) w"
  have tasks: "map (\<lambda>(fn, _). (fn, get_reserved_concurrency api fn)) ts = map (\<lambda>y. (fst y, ?g y)) ts"
    by (simp add: case_prod_beta)
  have sm: "as_completed order (map (\<lambda>y. (fst y, ?g y)) ts) w = ?run"
    by (simp add: as_completed_def schedule_map)
  have "\<forall>y \<in> set ?zs. performs uncaught (?g y) (Get (fst y))" by (simp add: performs_get)
  from run_tasks_performs [OF this, of fst w] w obtain tr where
    t: "trace (snd ?run) = tr" and m: "map fst tr = map (\<lambda>y. Get (fst y)) ?zs"
    by auto
  obtain fin w' where rt: "?run = (fin, w')" by (cases ?run)
  obtain ls en where sl: "show_loop fin = (ls, en)" by (cases "show_loop fin")
  have "show_mode a e order api w = \<lparr>final = w', out = ls, err = [], ended = en\<rparr>"
    by (simp add: show_mode_def it tasks sm rt sl)
  with t m rt show ?thesis by (simp add: calls_def schedule_map comp_def)
qed

lemma remove_mode_live:
  assumes it: "iter_targets a e False = Inr ts" and w: "trace w = []" and live: "\<not> dry_run a"
  shows "calls (remove_mode a e order api w) = map (\<lambda>y. Delete (fst y)) (schedule order ts)
       \<and> ended (remove_mode a e order api w)
           = (if any_failed (remove_mode a e order api w) then SystemExit_code 1 else Returned)"
proof -
  have tasks: "map (\<lambda>(fn, _). (fn, delete_concurrency api fn)) ts
      = map (\<lambda>y. (fst y, delete_concurrency api (fst y))) ts"
    by (simp add: case_prod_beta)
  have rm: "remove_mode a e order api w
      = live_run (\<lambda>fn. fn) order (map (\<lambda>y. (fst y, delete_concurrency api (fst y))) ts) w"
    by (simp add: remove_mode_def it live tasks)
  have "\<forall>y \<in> set ts. performs failed (delete_concurrency api (fst y)) (Delete (fst y))"
    by (simp add: performs_delete_concurrency)
  from live_run_calls [OF this w] show ?thesis unfolding rm .
qed

lemma throttle_mode_live:
  assumes it: "iter_targets a e False = Inr ts" and w: "trace w = []" and live: "\<not> dry_run a"
  shows "calls (throttle_mode a e order api w) = map (\<lambda>y. Put (fst y) 0) (schedule order ts)
       \<and> ended (throttle_mode a e order api w)
           = (if any_failed (throttle_mode a e order api w) then SystemExit_code 1 else Returned)"
proof -
  have tasks: "map (\<lambda>(fn, _). (fn, set_reserved api fn 0)) ts
      = map (\<lambda>y. (fst y, set_reserved api (fst y) 0)) ts"
    by (simp add: case_prod_beta)
  have rm: "throttle_mode a e order api w
      = live_run (\<lambda>fn. fn) order (map (\<lambda>y. (fst y, set_reserved api (fst y) 0)) ts) w"
    by (simp add: throttle_mode_def it live tasks)
  have "\<forall>y \<in> set ts. performs failed (set_reserved api (fst y) 0) (Put (fst y) 0)"
    by (simp add: performs_set_reserved)
  from live_run_calls [OF this w] show ?thesis unfolding rm .
qed

lemma main_show_client:
  "show_flag a \<Longrightarrow>
   main a e order (\<lambda>r. Inr api) r0 = show_mode a e order api \<lparr>trace = [], remote = r0\<rparr>"
  by (simp add: main_def)

lemma main_remove_client:
  "only_remove a \<Longrightarrow>
   main a e order (\<lambda>r. Inr api) r0 = remove_mode a e order api \<lparr>trace = [], remote = r0\<rparr>"
  by (simp add: main_def chosen_def only_remove_def)

lemma main_throttle_client:
  "only_throttle a \<Longrightarrow>
   main a e order (\<lambda>r. Inr api) r0 = throttle_mode a e order api \<lparr>trace = [], remote = r0\<rparr>"
  by (simp add: main_def chosen_def only_throttle_def)

lemma main_set_client:
  "only_set a \<Longrightarrow>
   main a e order (\<lambda>r. Inr api) r0 = set_mode a e order api \<lparr>trace = [], remote = r0\<rparr>"
  by (simp add: main_def chosen_def only_set_def)

lemma resolved_all:
  "missing_of ts = [] \<Longrightarrow> map (\<lambda>y. (fst y, Some (snd y))) (resolved ts) = ts"
  by (induction ts rule: resolved.induct) (simp_all add: missing_of_def)

lemma resolved_member:
  "(fn, Some v) \<in> set ts \<Longrightarrow> (fn, v) \<in> set (resolved ts)"
  by (induction ts rule: resolved.induct) auto

lemma resolved_names:
  "missing_of ts = [] \<Longrightarrow> map fst (resolved ts) = map fst ts"
  by (induction ts rule: resolved.induct) (simp_all add: missing_of_def)

lemma set_mode_live:
  assumes it: "iter_targets a e True = Inr ts" and w: "trace w = []" and live: "\<not> dry_run a"
    and ok: "missing_of ts = []"
  shows "calls (set_mode a e order api w) = map set_call (schedule order (resolved ts))
       \<and> ended (set_mode a e order api w)
           = (if any_failed (set_mode a e order api w) then SystemExit_code 1 else Returned)"
proof -
  let ?k = "\<lambda>y :: string \<times> int. (fst y, Some (snd y))"
  let ?label = "\<lambda>(fn, v). fn @ '' (target '' @ str_opt v @ '')''"
  have "map (\<lambda>t. (t, set_task api t)) ts
      = map (\<lambda>t. (t, set_task api t)) (map ?k (resolved ts))"
    by (simp only: resolved_all [OF ok])
  then have tasks: "map (\<lambda>t. (t, set_task api t)) ts
      = map (\<lambda>y. (?k y, set_task api (?k y))) (resolved ts)"
    by (simp add: comp_def)
  have rm: "set_mode a e order api w
      = live_run ?label order (map (\<lambda>y. (?k y, set_task api (?k y))) (resolved ts)) w"
    unfolding set_mode_def by (simp add: it live ok tasks)
  have "\<forall>y \<in> set (resolved ts). performs failed (set_task api (?k y)) (set_call y)"
    using performs_set_task by (metis prod.collapse)
  from live_run_calls [OF this w] show ?thesis unfolding rm .
qed

lemma scenario_targets:
  "iter_targets scenario_args scenario_env True
     = Inr [(''a'', Some 5), (''b'', Some 3), (''c'', Some (- 1))]"
  by code_simp

lemma scenario_only_set: "only_set scenario_args"
  by (simp add: only_set_def scenario_args_def)

lemma set_call_never_put_minus_one: "set_call y \<noteq> Put fn (- 1)"
  by (cases y) simp

lemma set_mode_stop:
  "iter_targets a e True = Inl x \<Longrightarrow> set_mode a e order api w = stopped w x"
  by (simp add: set_mode_def)

lemma set_mode_missing:
  "iter_targets a e True = Inr ts \<Longrightarrow> missing_of ts \<noteq> [] \<Longrightarrow>
   set_mode a e order api w = stopped w (SystemExit_msg (set_missing_msg (missing_of ts)))"
  by (simp add: set_mode_def)

lemma set_mode_dry:
  "iter_targets a e True = Inr ts \<Longrightarrow> missing_of ts = [] \<Longrightarrow> dry_run a \<Longrightarrow>
   set_mode a e order api w =
     \<lparr>final = w,
      out = map (\<lambda>(fn, v). if v = Some (- 1) then ''[DRYRUN REMOVE] '' @ fn
                            else ''[DRYRUN SET] '' @ fn @ '' -> '' @ str_opt v) ts,
      err = [], ended = Returned\<rparr>"
  by (simp add: set_mode_def)

lemma set_mode_calls_shape:
  assumes w: "trace w = []"
  shows "\<exists>ys. calls (set_mode a e order api w) = map set_call ys"
proof (cases "iter_targets a e True")
  case (Inl x)
  with w have "calls (set_mode a e order api w) = map set_call []"
    by (simp add: set_mode_stop calls_def stopped_def)
  then show ?thesis ..
next
  case (Inr ts)
  show ?thesis
  proof (cases "missing_of ts = []")
    case False
    with Inr w have "calls (set_mode a e order api w) = map set_call []"
      by (simp add: set_mode_missing calls_def stopped_def)
    then show ?thesis ..
  next
    case True
    show ?thesis
    proof (cases "dry_run a")
      case dry: True
      with Inr True w have "calls (set_mode a e order api w) = map set_call []"
        by (simp add: set_mode_dry calls_def)
      then show ?thesis ..
    next
      case live: False
      from set_mode_live [OF Inr w live True] show ?thesis by blast
    qed
  qed
qed

lemma set_targets_None_default:
  "(fn, None) \<in> set (set_targets d rs) \<Longrightarrow> d = None"
  by (induction d rs rule: set_targets.induct) (auto split: if_splits option.splits)

lemma missing_of_member: "(fn, None) \<in> set ts \<Longrightarrow> fn \<in> set (missing_of ts)"
  by (force simp: missing_of_def)

lemma kept_names_iff:
  "n \<in> set (kept_names rs) \<longleftrightarrow>
     (\<exists>fn cols. fn # cols \<in> set rs \<and> n = strip fn \<and> n \<noteq> []
        \<and> \<not> startswith (lower n) ''function'')"
  by (induction rs rule: kept_names.induct) auto

lemma main_no_mode:
  "mk (region a) = Inr api \<Longrightarrow>
   \<not> show_flag a \<Longrightarrow> \<not> only_remove a \<Longrightarrow> \<not> only_throttle a \<Longrightarrow> \<not> only_set a \<Longrightarrow>
   main a e order mk r0 = stopped \<lparr>trace = [], remote = r0\<rparr> (SystemExit_msg mode_msg)"
  by (auto simp: main_def chosen_def only_remove_def only_throttle_def only_set_def)

lemma remove_mode_stop:
  "iter_targets a e False = Inl x \<Longrightarrow> remove_mode a e order api w = stopped w x"
  by (simp add: remove_mode_def)

lemma throttle_mode_stop:
  "iter_targets a e False = Inl x \<Longrightarrow> throttle_mode a e order api w = stopped w x"
  by (simp add: throttle_mode_def)

lemma main_stops:
  assumes cl: "mk (region a) = Inr api" and it: "\<And>rv. iter_targets a e rv = Inl x"
  shows "show_flag a \<or> only_remove a \<or> only_throttle a \<or> only_set a \<Longrightarrow>
           main a e order mk r0 = stopped \<lparr>trace = [], remote = r0\<rparr> x"
  using it
  by (auto simp: main_show [where mk = mk and a = a, OF cl]
      main_remove [where mk = mk and a = a, OF cl] main_throttle [where mk = mk and a = a, OF cl]
      main_set [where mk = mk and a = a, OF cl]
      show_mode_stop remove_mode_stop throttle_mode_stop set_mode_stop)

lemma main_stops_calls:
  assumes it: "\<And>rv. iter_targets a e rv = Inl x"
  shows "calls (main a e order mk r0) = []"
proof (cases "mk (region a)")
  case (Inl y)
  then show ?thesis by (simp add: main_no_client calls_stopped)
next
  case (Inr api)
  show ?thesis
  proof (cases "show_flag a \<or> only_remove a \<or> only_throttle a \<or> only_set a")
    case True
    from main_stops [where mk = mk and a = a, OF Inr it True] show ?thesis
      by (simp add: calls_stopped)
  next
    case False
    with Inr show ?thesis by (simp add: main_no_mode calls_stopped)
  qed
qed

lemma show_mode_exit:
  assumes it: "iter_targets a e False = Inr ts" and w: "trace w = []"
  shows "exit_code (ended (show_mode a e order api w))
           = (if any_uncaught (show_mode a e order api w) then 1 else 0)"
proof -
  let ?g = "\<lambda>y :: target. get_reserved_concurrency api (fst y)"
  let ?zs = "schedule order ts"
  let ?run = "run_tasks (map (\<lambda>y. (fst y, ?g y)) ?zs) w"
  have tasks: "map (\<lambda>(fn, _). (fn, get_reserved_concurrency api fn)) ts = map (\<lambda>y. (fst y, ?g y)) ts"
    by (simp add: case_prod_beta)
  have sm: "as_completed order (map (\<lambda>y. (fst y, ?g y)) ts) w = ?run"
    by (simp add: as_completed_def schedule_map)
  have "\<forall>y \<in> set ?zs. performs uncaught (?g y) (Get (fst y))" by (simp add: performs_get)
  from run_tasks_performs [OF this, of fst w] w obtain tr where
    t: "trace (snd ?run) = tr"
    and l: "list_ex (\<lambda>p. isl (snd p)) (fst ?run) = list_ex (\<lambda>(c, resp). uncaught resp) tr"
    by auto
  obtain fin w' where rt: "?run = (fin, w')" by (cases ?run)
  obtain ls en where sl: "show_loop fin = (ls, en)" by (cases "show_loop fin")
  have sh: "show_mode a e order api w = \<lparr>final = w', out = ls, err = [], ended = en\<rparr>"
    by (simp add: show_mode_def it tasks sm rt sl)
  from show_loop_ended [of fin] sl
  have "exit_code en = (if list_ex (\<lambda>p. isl (snd p)) fin then 1 else 0)" by simp
  with t l rt show ?thesis by (simp add: sh any_uncaught_def)
qed

lemma call_name_set_call: "call_name (set_call y) = fst y"
  by (cases y) simp

lemma remove_mode_dry:
  "iter_targets a e False = Inr ts \<Longrightarrow> dry_run a \<Longrightarrow>
   remove_mode a e order api w =
     \<lparr>final = w, out = map (\<lambda>(fn, _). ''[DRYRUN REMOVE] '' @ fn) ts, err = [], ended = Returned\<rparr>"
  by (simp add: remove_mode_def)

lemma throttle_mode_dry:
  "iter_targets a e False = Inr ts \<Longrightarrow> dry_run a \<Longrightarrow>
   throttle_mode a e order api w =
     \<lparr>final = w, out = map (\<lambda>(fn, _). ''[DRYRUN SET] '' @ fn @ '' -> 0'') ts, err = [],
      ended = Returned\<rparr>"
  by (simp add: throttle_mode_def)

lemma dry_mode_final:
  assumes "dry_run a"
  shows "final (remove_mode a e order api w) = w"
    and "final (throttle_mode a e order api w) = w"
    and "final (set_mode a e order api w) = w"
  using assms
  by (auto simp: remove_mode_def throttle_mode_def set_mode_def stopped_def split: sum.splits)

subsection \<open>The text of an integer within the digit limit parses to that integer\<close>



















subsection \<open>What the show branch prints, and how a failed resolution ends\<close>

lemma get_result:
  assumes "get_reserved_concurrency api fn w = (res, w')"
  shows "\<exists>resp. trace w' = trace w @ [(Get fn, resp)]
           \<and> (if uncaught resp then isl res else res = Inr (fn, show_status resp))"
proof -
  obtain resp w1 where i: "invoke api (Get fn) w = (resp, w1)" by (cases "invoke api (Get fn) w")
  from i have t: "trace w1 = trace w @ [(Get fn, resp)]" by (rule invoke_trace)
  have "trace w' = trace w @ [(Get fn, resp)]
      \<and> (if uncaught resp then isl res else res = Inr (fn, show_status resp))"
  proof (cases resp)
    case (Resp v)
    with i t assms show ?thesis
      by (cases v) (auto simp: get_reserved_concurrency_def split: if_splits)
  next
    case (Raise x)
    with i t assms show ?thesis by (cases x) (auto simp: get_reserved_concurrency_def)
  qed
  then show ?thesis ..
qed

lemma run_gets:
  "\<exists>tr. trace (snd (run_tasks (map (\<lambda>fn. (fn, get_reserved_concurrency api fn)) fns) w))
            = trace w @ tr
        \<and> list_all2 (\<lambda>p q. fst q = Get (fst p) \<and>
              (if uncaught (snd q) then isl (snd p)
               else snd p = Inr (fst p, show_status (snd q))))
            (fst (run_tasks (map (\<lambda>fn. (fn, get_reserved_concurrency api fn)) fns) w)) tr"
proof (induction fns arbitrary: w)
  case Nil
  then show ?case by simp
next
  case (Cons fn fns)
  obtain res w1 where g: "get_reserved_concurrency api fn w = (res, w1)"
    by (cases "get_reserved_concurrency api fn w")
  from get_result [OF g] obtain resp where
    t1: "trace w1 = trace w @ [(Get fn, resp)]"
    and r1: "if uncaught resp then isl res else res = Inr (fn, show_status resp)"
    by blast
  let ?rest = "run_tasks (map (\<lambda>fn. (fn, get_reserved_concurrency api fn)) fns) w1"
  from Cons.IH [of w1] obtain tr where
    t2: "trace (snd ?rest) = trace w1 @ tr"
    and l2: "list_all2 (\<lambda>p q. fst q = Get (fst p) \<and>
              (if uncaught (snd q) then isl (snd p)
               else snd p = Inr (fst p, show_status (snd q)))) (fst ?rest) tr"
    by blast
  obtain fin w2 where rt: "?rest = (fin, w2)" by (cases ?rest)
  let ?tr = "(Get fn, resp) # tr"
  from g t1 r1 t2 l2 rt
  have "trace (snd (run_tasks (map (\<lambda>fn. (fn, get_reserved_concurrency api fn)) (fn # fns)) w))
            = trace w @ ?tr
        \<and> list_all2 (\<lambda>p q. fst q = Get (fst p) \<and>
              (if uncaught (snd q) then isl (snd p)
               else snd p = Inr (fst p, show_status (snd q))))
            (fst (run_tasks (map (\<lambda>fn. (fn, get_reserved_concurrency api fn)) (fn # fns)) w)) ?tr"
    by simp
  then show ?case by blast
qed

lemma show_loop_lines:
  assumes "list_all2 (\<lambda>p q. fst q = Get (fst p) \<and>
              (if uncaught (snd q) then isl (snd p)
               else snd p = Inr (fst p, show_status (snd q)))) fin tr"
    and "\<not> list_ex (\<lambda>(c, resp). uncaught resp) tr"
  shows "fst (show_loop fin) = map show_line tr"
  using assms
proof (induction fin tr rule: list_all2_induct)
  case Nil
  then show ?case by simp
next
  case (Cons p fin q tr)
  obtain tag res where p: "p = (tag, res)" by (cases p)
  obtain c resp where q: "q = (c, resp)" by (cases q)
  from Cons.prems q have nu: "\<not> uncaught resp"
    and rest: "\<not> list_ex (\<lambda>(c, resp). uncaught resp) tr" by simp_all
  from Cons.hyps(1) p q nu have c: "c = Get tag" and r: "res = Inr (tag, show_status resp)"
    by simp_all
  obtain ls en where sl: "show_loop fin = (ls, en)" by (cases "show_loop fin")
  from Cons.IH [OF rest] sl have "ls = map show_line tr" by simp
  with sl show ?case by (simp add: p q c r show_line_def)
qed

lemma show_mode_out:
  assumes it: "iter_targets a e False = Inr ts" and w: "trace w = []"
    and nu: "\<not> any_uncaught (show_mode a e order api w)"
  shows "out (show_mode a e order api w) = map show_line (trace (final (show_mode a e order api w)))"
proof -
  let ?fns = "schedule order (map fst ts)"
  let ?run = "run_tasks (map (\<lambda>fn. (fn, get_reserved_concurrency api fn)) ?fns) w"
  have tasks: "map (\<lambda>(fn, _). (fn, get_reserved_concurrency api fn)) ts
      = map (\<lambda>fn. (fn, get_reserved_concurrency api fn)) (map fst ts)"
    by (simp add: case_prod_beta comp_def)
  have sm: "as_completed order (map (\<lambda>(fn, _). (fn, get_reserved_concurrency api fn)) ts) w = ?run"
    unfolding tasks by (simp add: as_completed_def schedule_map)
  from run_gets [of api ?fns w] w obtain tr where
    t: "trace (snd ?run) = tr"
    and l: "list_all2 (\<lambda>p q. fst q = Get (fst p) \<and>
              (if uncaught (snd q) then isl (snd p)
               else snd p = Inr (fst p, show_status (snd q)))) (fst ?run) tr"
    by auto
  obtain fin w' where rt: "?run = (fin, w')" by (cases ?run)
  obtain ls en where sl: "show_loop fin = (ls, en)" by (cases "show_loop fin")
  have sh: "show_mode a e order api w = \<lparr>final = w', out = ls, err = [], ended = en\<rparr>"
    unfolding show_mode_def by (simp add: it sm rt sl)
  from nu t rt have "\<not> list_ex (\<lambda>(c, resp). uncaught resp) tr"
    by (simp add: sh any_uncaught_def)
  from show_loop_lines [OF _ this, of fin] l rt sl have "ls = map show_line tr" by simp
  with t rt show ?thesis by (simp add: sh)
qed

lemma parse_int_or_none_Inl:
  "parse_int_or_none s = Inl x \<Longrightarrow> exit_code x = 1"
  by (auto simp: parse_int_or_none_def Let_def split: option.splits if_splits)

lemma add_row_Inl: "add_row rv d acc fn vt = Inl x \<Longrightarrow> exit_code x = 1"
  by (auto simp: add_row_def Let_def dest: parse_int_or_none_Inl
      split: if_splits sum.splits option.splits)

lemma read_rows_Inl: "read_rows rv d acc rs = Inl x \<Longrightarrow> exit_code x = 1"
proof (induction rs arbitrary: acc)
  case Nil
  then show ?case by simp
next
  case (Cons parts rs)
  then show ?case
    by (cases parts) (auto dest: add_row_Inl split: sum.splits)
qed

lemma iter_targets_Inl: "iter_targets a e rv = Inl x \<Longrightarrow> exit_code x = 1"
  by (auto simp: iter_targets_def dest: add_row_Inl read_rows_Inl
      split: option.splits if_splits sum.splits)



lemma iter_targets_dry_run: "iter_targets (a\<lparr>dry_run := b\<rparr>) e rv = iter_targets a e rv"
  by (simp add: iter_targets_def cong: option.case_cong sum.case_cong if_cong)

subsection \<open>A single row, and a value too long to parse\<close>




section \<open>The claims\<close>

text \<open>
  Claim C1. In set mode each target takes the value of its row when the row has one and
  the default of \<open>--concurrency\<close> otherwise. For the rows \<open>a,5\<close>, \<open>b\<close>, \<open>c,-1\<close> and the
  default 3 the targets are \<open>(a,5)\<close>, \<open>(b,3)\<close>, \<open>(c,-1)\<close>, and a live run makes, in the
  order the pool completes them, a put of 5 for \<open>a\<close>, a put of 3 for \<open>b\<close> and a delete for
  \<open>c\<close>, whatever the remote answers.
\<close>

theorem set_mode_resolution:
  "(source_rows a e = Some rs \<longrightarrow> iter_targets a e True = Inr ts \<longrightarrow>
      ts = set_targets (concurrency a) rs)
   \<and> iter_targets scenario_args scenario_env True
       = Inr [(''a'', Some 5), (''b'', Some 3), (''c'', Some (- 1))]
   \<and> calls (main scenario_args scenario_env order (\<lambda>r. Inr api) r0)
       = schedule order [Put ''a'' 5, Put ''b'' 3, Delete ''c'']
   \<and> mset (calls (main scenario_args scenario_env order (\<lambda>r. Inr api) r0))
       = {#Put ''a'' 5, Put ''b'' 3, Delete ''c''#}"
proof -
  have general: "source_rows a e = Some rs \<longrightarrow> iter_targets a e True = Inr ts \<longrightarrow>
      ts = set_targets (concurrency a) rs"
    using iter_targets_True [of a e ts] by auto
  have live: "\<not> dry_run scenario_args" by (simp add: scenario_args_def)
  have ok: "missing_of [(''a'', Some 5), (''b'', Some 3), (''c'', Some (- 1 :: int))] = []"
    by (simp add: missing_of_def)
  have c: "calls (main scenario_args scenario_env order (\<lambda>r. Inr api) r0)
      = schedule order [Put ''a'' 5, Put ''b'' 3, Delete ''c'']"
    using set_mode_live [OF scenario_targets _ live ok, of "\<lparr>trace = [], remote = r0\<rparr>" order api]
    by (simp add: main_set_client [OF scenario_only_set] schedule_map [symmetric])
  have "mset (calls (main scenario_args scenario_env order (\<lambda>r. Inr api) r0))
      = {#Put ''a'' 5, Put ''b'' 3, Delete ''c''#}"
    by (simp add: c mset_schedule)
  with general scenario_targets c show ?thesis by blast
qed

theorem set_mode_resolution_witness:
  "source_rows scenario_args scenario_env = Some [[''a'', ''5''], [''b''], [''c'', ''-1'']]
   \<and> iter_targets scenario_args scenario_env True
       = Inr [(''a'', Some 5), (''b'', Some 3), (''c'', Some (- 1))]
   \<and> [(''a'', Some 5), (''b'', Some 3), (''c'', Some (- 1))]
       = set_targets (concurrency scenario_args) [[''a'', ''5''], [''b''], [''c'', ''-1'']]
   \<and> calls (main scenario_args scenario_env [2, 0] (\<lambda>r. Inr api_ok) ())
       = [Delete ''c'', Put ''a'' 5, Put ''b'' 3]"
proof -
  have s: "source_rows scenario_args scenario_env = Some [[''a'', ''5''], [''b''], [''c'', ''-1'']]"
    by code_simp
  have sch: "schedule [2, 0] [Put ''a'' 5, Put ''b'' 3, Delete ''c''] = [Delete ''c'', Put ''a'' 5, Put ''b'' 3]"
    by code_simp
  from set_mode_resolution [of scenario_args scenario_env "[[''a'', ''5''], [''b''], [''c'', ''-1'']]"
      "[(''a'', Some 5), (''b'', Some 3), (''c'', Some (- 1))]" "[2, 0]" api_ok "()"] s sch
  show ?thesis by simp
qed

text \<open>
  Claim C2. In set mode a target whose value is -1, from its row or from the default, is
  deleted: the run never makes a put with the value -1, a live run makes a delete for the
  target's function, and a dry run announces the removal.
\<close>

theorem set_minus_one_deletes:
  assumes "only_set a"
  shows "Put fn (- 1) \<notin> set (calls (main a e order (\<lambda>r. Inr api) r0))
       \<and> (iter_targets a e True = Inr ts \<longrightarrow> missing_of ts = [] \<longrightarrow> (g, Some (- 1)) \<in> set ts \<longrightarrow>
            (if dry_run a then (''[DRYRUN REMOVE] '' @ g) \<in> set (out (main a e order (\<lambda>r. Inr api) r0))
             else Delete g \<in> set (calls (main a e order (\<lambda>r. Inr api) r0))))"
proof -
  let ?w = "\<lparr>trace = [], remote = r0\<rparr>"
  have m: "main a e order (\<lambda>r. Inr api) r0 = set_mode a e order api ?w"
    using assms by (rule main_set_client)
  obtain ys where ys: "calls (set_mode a e order api ?w) = map set_call ys"
    using set_mode_calls_shape [of ?w a e order api] by auto
  have never: "Put fn (- 1) \<notin> set (calls (main a e order (\<lambda>r. Inr api) r0))"
  proof
    assume "Put fn (- 1) \<in> set (calls (main a e order (\<lambda>r. Inr api) r0))"
    with ys have "Put fn (- 1) \<in> set_call ` set ys" by (simp add: m)
    then obtain y where "set_call y = Put fn (- 1)" by (metis imageE)
    then show False using set_call_never_put_minus_one by blast
  qed
  have "(if dry_run a then (''[DRYRUN REMOVE] '' @ g) \<in> set (out (main a e order (\<lambda>r. Inr api) r0))
         else Delete g \<in> set (calls (main a e order (\<lambda>r. Inr api) r0)))"
    if it: "iter_targets a e True = Inr ts" and ok: "missing_of ts = []"
      and mem: "(g, Some (- 1)) \<in> set ts"
  proof (cases "dry_run a")
    case True
    from mem have "(\<lambda>(fn, v). if v = Some (- 1) then ''[DRYRUN REMOVE] '' @ fn
        else ''[DRYRUN SET] '' @ fn @ '' -> '' @ str_opt v) (g, Some (- 1 :: int))
        \<in> set (out (set_mode a e order api ?w))"
      unfolding set_mode_dry [OF it ok True] by (simp only: result.simps set_map) (rule imageI)
    with True show ?thesis by (simp add: m)
  next
    case False
    from mem have "(g, - 1) \<in> set (schedule order (resolved ts))"
      by (simp add: set_schedule resolved_member)
    then have "set_call (g, - 1) \<in> set (map set_call (schedule order (resolved ts)))"
      by (simp only: set_map) (rule imageI)
    with set_mode_live [OF it _ False ok, of ?w order api] False show ?thesis
      by (simp add: m)
  qed
  with never show ?thesis by blast
qed

theorem set_minus_one_deletes_witness:
  "only_set scenario_args
   \<and> Put ''c'' (- 1) \<notin> set (calls (main scenario_args scenario_env [1] (\<lambda>r. Inr api_ok) ()))
   \<and> iter_targets scenario_args scenario_env True
       = Inr [(''a'', Some 5), (''b'', Some 3), (''c'', Some (- 1))]
   \<and> missing_of [(''a'', Some 5), (''b'', Some 3), (''c'', Some (- 1))] = []
   \<and> (''c'', Some (- 1)) \<in> set [(''a'', Some 5), (''b'', Some 3), (''c'', Some (- 1 :: int))]
   \<and> Delete ''c'' \<in> set (calls (main scenario_args scenario_env [1] (\<lambda>r. Inr api_ok) ()))"
proof -
  have h: "only_set scenario_args" by (simp add: only_set_def scenario_args_def)
  have it: "iter_targets scenario_args scenario_env True
       = Inr [(''a'', Some 5), (''b'', Some 3), (''c'', Some (- 1))]" by code_simp
  have ok: "missing_of [(''a'', Some 5), (''b'', Some 3), (''c'', Some (- 1 :: int))] = []"
    by (simp add: missing_of_def)
  have live: "\<not> dry_run scenario_args" by (simp add: scenario_args_def)
  from set_minus_one_deletes [OF h, of "''c''" scenario_env "[1]" api_ok "()"
      "[(''a'', Some 5), (''b'', Some 3), (''c'', Some (- 1))]" "''c''"] h it ok live
  show ?thesis by simp
qed

text \<open>
  Claim C3. With \<open>--show\<close>, whatever the other flags are, every call the run makes is a
  read; when the targets resolve there is one read per target, and no put or delete.
\<close>

theorem show_only_reads:
  assumes "show_flag a"
  shows "(\<forall>c \<in> set (calls (main a e order (\<lambda>r. Inr api) r0)). \<exists>fn. c = Get fn)
       \<and> (iter_targets a e False = Inr ts \<longrightarrow>
            calls (main a e order (\<lambda>r. Inr api) r0) = map Get (schedule order (map fst ts)))"
proof (cases "iter_targets a e False")
  case (Inl x)
  with assms show ?thesis
    by (simp add: main_show_client show_mode_stop calls_stopped)
next
  case (Inr us)
  from show_mode_calls [OF Inr, of "\<lparr>trace = [], remote = r0\<rparr>" order api] assms Inr
  show ?thesis by (auto simp: main_show_client)
qed

theorem show_only_reads_witness:
  "show_flag (scenario_args\<lparr>show_flag := True\<rparr>)
   \<and> calls (main (scenario_args\<lparr>show_flag := True\<rparr>) scenario_env [1] (\<lambda>r. Inr api_denied) ())
       = [Get ''b'', Get ''a'', Get ''c'']"
proof -
  have h: "show_flag (scenario_args\<lparr>show_flag := True\<rparr>)" by simp
  have it: "iter_targets (scenario_args\<lparr>show_flag := True\<rparr>) scenario_env False
      = Inr [(''a'', None), (''b'', None), (''c'', None)]"
    by code_simp
  have sch: "schedule [1] [''a'', ''b'', ''c''] = [''b'', ''a'', ''c'']" by code_simp
  from show_only_reads [OF h, of scenario_env "[1]" api_denied "()" "[(''a'', None), (''b'', None), (''c'', None)]"]
    it sch h
  show ?thesis by simp
qed

text \<open>
  Claim C4 says that in every mode a failed operation makes the exit status 1. With
  \<open>--show\<close> it does not: the client refuses the read, \<open>get_reserved_concurrency\<close> returns
  the error as the status of the function, and the run ends with status 0.
\<close>

theorem exit_status_show_counterexample:
  "\<not> (any_failed (main (single_args\<lparr>show_flag := True\<rparr>) scenario_env [] client_denied ())
        \<longrightarrow> exit_code (ended (main (single_args\<lparr>show_flag := True\<rparr>) scenario_env []
              client_denied ())) = 1)"
  by code_simp

text \<open>
  Claim C4, amended. Take a run whose client is made. If it is a live run in remove,
  throttle or set mode and its targets resolve, one call is made for every target,
  whatever the other calls did, and the exit status is 1 if any of them failed and 0 if
  none did. If it is a run with \<open>--show\<close> and its targets resolve, one read is made for
  every target, and the exit status is 1 if an exception other than a \<open>ClientError\<close>
  left a read and 0 otherwise; when none did, the lines printed are those of the reads
  in the order they completed, a refused read with its error as the status.
\<close>

theorem exit_status_by_mode:
  assumes "mk (region a) = Inr api"
  shows "(only_remove a \<or> only_throttle a \<or> only_set a \<longrightarrow> \<not> dry_run a \<longrightarrow>
      iter_targets a e (do_set a) = Inr ts \<longrightarrow> (do_set a \<longrightarrow> missing_of ts = []) \<longrightarrow>
        map call_name (calls (main a e order mk r0)) = map fst (schedule order ts)
        \<and> exit_code (ended (main a e order mk r0))
            = (if any_failed (main a e order mk r0) then 1 else 0))
   \<and> (show_flag a \<longrightarrow> iter_targets a e False = Inr ts \<longrightarrow>
        calls (main a e order mk r0) = map Get (schedule order (map fst ts))
        \<and> exit_code (ended (main a e order mk r0))
            = (if any_uncaught (main a e order mk r0) then 1 else 0)
        \<and> (\<not> any_uncaught (main a e order mk r0) \<longrightarrow>
              out (main a e order mk r0)
                = map show_line (trace (final (main a e order mk r0)))))"
proof -
  let ?w = "\<lparr>trace = [], remote = r0\<rparr>"
  let ?R = "main a e order mk r0"
  let ?goal = "map call_name (calls ?R) = map fst (schedule order ts)
        \<and> exit_code (ended ?R) = (if any_failed ?R then 1 else 0)"
  note cl = assms
  have rem: ?goal
    if m: "only_remove a" and live: "\<not> dry_run a" and it: "iter_targets a e (do_set a) = Inr ts"
  proof -
    from m it have it': "iter_targets a e False = Inr ts" by (simp add: only_remove_def)
    from remove_mode_live [OF it' _ live, of ?w order api] show ?thesis
      by (simp add: main_remove [where mk = mk and a = a, OF cl m] comp_def)
  qed
  have thr: ?goal
    if m: "only_throttle a" and live: "\<not> dry_run a" and it: "iter_targets a e (do_set a) = Inr ts"
  proof -
    from m it have it': "iter_targets a e False = Inr ts" by (simp add: only_throttle_def)
    from throttle_mode_live [OF it' _ live, of ?w order api] show ?thesis
      by (simp add: main_throttle [where mk = mk and a = a, OF cl m] comp_def)
  qed
  have st: ?goal
    if m: "only_set a" and live: "\<not> dry_run a" and it: "iter_targets a e (do_set a) = Inr ts"
      and ok: "do_set a \<longrightarrow> missing_of ts = []"
  proof -
    from m it have it': "iter_targets a e True = Inr ts" by (simp add: only_set_def)
    from m ok have ok': "missing_of ts = []" by (simp add: only_set_def)
    have "map call_name (map set_call (schedule order (resolved ts)))
        = map fst (schedule order (resolved ts))"
      by (simp add: comp_def call_name_set_call)
    also have "\<dots> = schedule order (map fst (resolved ts))" by (simp add: schedule_map)
    also have "\<dots> = map fst (schedule order ts)"
      by (simp add: resolved_names [OF ok'] schedule_map)
    finally have n: "map call_name (map set_call (schedule order (resolved ts)))
        = map fst (schedule order ts)" .
    from set_mode_live [OF it' _ live ok', of ?w order api] n show ?thesis
      by (simp add: main_set [where mk = mk and a = a, OF cl m])
  qed
  have sh: "calls ?R = map Get (schedule order (map fst ts))
        \<and> exit_code (ended ?R) = (if any_uncaught ?R then 1 else 0)
        \<and> (\<not> any_uncaught ?R \<longrightarrow> out ?R = map show_line (trace (final ?R)))"
    if s: "show_flag a" and it: "iter_targets a e False = Inr ts"
  proof -
    note m = main_show [where mk = mk and a = a, OF cl s, of e order r0]
    have "\<not> any_uncaught ?R \<longrightarrow> out ?R = map show_line (trace (final ?R))"
      unfolding m using show_mode_out [OF it, of ?w order api] by simp
    with show_mode_calls [OF it, of ?w order api] show_mode_exit [OF it, of ?w order api]
    show ?thesis by (simp add: m)
  qed
  from rem thr st sh show ?thesis by blast
qed

theorem exit_status_by_mode_witness:
  "client_denied (region scenario_args) = Inr api_denied
   \<and> only_set scenario_args \<and> \<not> dry_run scenario_args
   \<and> iter_targets scenario_args scenario_env (do_set scenario_args)
       = Inr [(''a'', Some 5), (''b'', Some 3), (''c'', Some (- 1))]
   \<and> missing_of [(''a'', Some 5), (''b'', Some 3), (''c'', Some (- 1))] = []
   \<and> map call_name (calls (main scenario_args scenario_env [1] client_denied ()))
       = [''b'', ''a'', ''c'']
   \<and> any_failed (main scenario_args scenario_env [1] client_denied ())
   \<and> exit_code (ended (main scenario_args scenario_env [1] client_denied ())) = 1
   \<and> exit_code (ended (main scenario_args scenario_env [1] client_ok ())) = 0
   \<and> show_flag (scenario_args\<lparr>show_flag := True\<rparr>)
   \<and> exit_code (ended (main (scenario_args\<lparr>show_flag := True\<rparr>) scenario_env [1]
        client_denied ())) = 0
   \<and> out (main (scenario_args\<lparr>show_flag := True\<rparr>) scenario_env [1] client_denied ())
       = [''[SHOW  ] b: ERROR: AccessDeniedException - denied'',
          ''[SHOW  ] a: ERROR: AccessDeniedException - denied'',
          ''[SHOW  ] c: ERROR: AccessDeniedException - denied'']"
proof -
  let ?ts = "[(''a'', Some 5), (''b'', Some 3), (''c'', Some (- 1 :: int))]"
  let ?s = "scenario_args\<lparr>show_flag := True\<rparr>"
  have cd: "client_denied (region scenario_args) = Inr api_denied" by (simp add: client_denied_def)
  have co: "client_ok (region scenario_args) = Inr api_ok" by (simp add: client_ok_def)
  have cs: "client_denied (region ?s) = Inr api_denied" by (simp add: client_denied_def)
  have h: "only_set scenario_args" by (simp add: only_set_def scenario_args_def)
  have live: "\<not> dry_run scenario_args" by (simp add: scenario_args_def)
  have it: "iter_targets scenario_args scenario_env (do_set scenario_args) = Inr ?ts"
    by code_simp
  have ok: "missing_of ?ts = []" by (simp add: missing_of_def)
  have sch: "map fst (schedule [1] ?ts) = [''b'', ''a'', ''c'']" by code_simp
  have af: "any_failed (main scenario_args scenario_env [1] client_denied ())" by code_simp
  have nf: "\<not> any_failed (main scenario_args scenario_env [1] client_ok ())" by code_simp
  have sf: "show_flag ?s" by simp
  have its: "iter_targets ?s scenario_env False = Inr [(''a'', None), (''b'', None), (''c'', None)]"
    by code_simp
  have nu: "\<not> any_uncaught (main ?s scenario_env [1] client_denied ())" by code_simp
  have ln: "map show_line (trace (final (main ?s scenario_env [1] client_denied ())))
      = [''[SHOW  ] b: ERROR: AccessDeniedException - denied'',
         ''[SHOW  ] a: ERROR: AccessDeniedException - denied'',
         ''[SHOW  ] c: ERROR: AccessDeniedException - denied'']" by code_simp
  from exit_status_by_mode [where mk = client_denied and a = scenario_args, OF cd,
      of scenario_env ?ts "[1]" "()"] h live it ok
  have d: "map call_name (calls (main scenario_args scenario_env [1] client_denied ()))
       = map fst (schedule [1] ?ts)
     \<and> exit_code (ended (main scenario_args scenario_env [1] client_denied ()))
       = (if any_failed (main scenario_args scenario_env [1] client_denied ()) then 1 else 0)"
    by blast
  from exit_status_by_mode [where mk = client_ok and a = scenario_args, OF co,
      of scenario_env ?ts "[1]" "()"] h live it ok
  have o: "exit_code (ended (main scenario_args scenario_env [1] client_ok ()))
       = (if any_failed (main scenario_args scenario_env [1] client_ok ()) then 1 else 0)"
    by blast
  from exit_status_by_mode [where mk = client_denied and a = ?s, OF cs,
      of scenario_env "[(''a'', None), (''b'', None), (''c'', None)]" "[1]" "()"] sf its nu
  have s: "exit_code (ended (main ?s scenario_env [1] client_denied ()))
       = (if any_uncaught (main ?s scenario_env [1] client_denied ()) then 1 else 0)
     \<and> out (main ?s scenario_env [1] client_denied ())
       = map show_line (trace (final (main ?s scenario_env [1] client_denied ())))"
    by blast
  from d o s h live it ok af nf nu sf cd show ?thesis
    by (simp only: sch ln if_True if_False simp_thms)
qed

text \<open>
  Claim C5 says that a run with \<open>--dry-run\<close> makes no call and exits with 0 in every
  mode. With \<open>--show\<close> the flag is not consulted and the read is made; and a dry run in
  set mode without a value for its target ends with the configuration error, status 1.
\<close>

theorem dry_run_counterexample:
  "calls (main (single_args\<lparr>show_flag := True, dry_run := True\<rparr>) scenario_env [] client_ok ())
     = [Get ''f'']
   \<and> exit_code (ended (main (single_args\<lparr>do_set := True, dry_run := True\<rparr>) scenario_env []
        client_ok ())) = 1"
  by code_simp

text \<open>
  Claim C5, amended. A run with \<open>--dry-run\<close> and without \<open>--show\<close> makes no call and
  leaves the remote as it was; its exit status is 0 when the client is made, one mode is
  selected and the targets resolve (in set mode: each with a value), and 1 in every other
  case. With \<open>--show\<close> the flag has no effect: the run is the same with and without it.
\<close>

theorem dry_run_makes_no_call:
  "(dry_run a \<longrightarrow> \<not> show_flag a \<longrightarrow>
      final (main a e order mk r0) = \<lparr>trace = [], remote = r0\<rparr>
      \<and> calls (main a e order mk r0) = []
      \<and> exit_code (ended (main a e order mk r0)) = (if config_ok a e mk then 0 else 1))
   \<and> (show_flag a \<longrightarrow>
        main (a\<lparr>dry_run := True\<rparr>) e order mk r0 = main (a\<lparr>dry_run := False\<rparr>) e order mk r0)"
proof -
  let ?w = "\<lparr>trace = [], remote = r0\<rparr>"
  let ?R = "main a e order mk r0"
  have dry: "final ?R = ?w \<and> calls ?R = []
      \<and> exit_code (ended ?R) = (if config_ok a e mk then 0 else 1)"
    if d: "dry_run a" and ns: "\<not> show_flag a"
  proof (cases "mk (region a)")
    case (Inl x)
    then show ?thesis by (simp add: main_no_client stopped_def calls_def config_ok_def)
  next
    case (Inr api)
    note cl = Inr
    show ?thesis
    proof (cases "only_remove a \<or> only_throttle a \<or> only_set a")
      case False
      with cl ns show ?thesis
        by (simp add: main_no_mode [where mk = mk and a = a] stopped_def calls_def config_ok_def)
    next
      case True
      then consider (r) "only_remove a" | (t) "only_throttle a" | (s) "only_set a" by blast
      then show ?thesis
      proof cases
        case r
        note m = main_remove [where mk = mk and a = a, OF cl r, of e order r0]
        from r have ds: "\<not> do_set a" by (simp add: only_remove_def)
        show ?thesis
        proof (cases "iter_targets a e False")
          case (Inl x)
          with cl r ds iter_targets_Inl [OF Inl] show ?thesis
            by (simp add: m remove_mode_stop stopped_def calls_def config_ok_def)
        next
          case (Inr ts)
          from remove_mode_dry [OF Inr d, of order api ?w] cl r ds Inr show ?thesis
            by (simp add: m calls_def config_ok_def)
        qed
      next
        case t
        note m = main_throttle [where mk = mk and a = a, OF cl t, of e order r0]
        from t have ds: "\<not> do_set a" by (simp add: only_throttle_def)
        show ?thesis
        proof (cases "iter_targets a e False")
          case (Inl x)
          with cl t ds iter_targets_Inl [OF Inl] show ?thesis
            by (simp add: m throttle_mode_stop stopped_def calls_def config_ok_def)
        next
          case (Inr ts)
          from throttle_mode_dry [OF Inr d, of order api ?w] cl t ds Inr show ?thesis
            by (simp add: m calls_def config_ok_def)
        qed
      next
        case s
        note m = main_set [where mk = mk and a = a, OF cl s, of e order r0]
        from s have ds: "do_set a" by (simp add: only_set_def)
        show ?thesis
        proof (cases "iter_targets a e True")
          case (Inl x)
          with cl s ds iter_targets_Inl [OF Inl] show ?thesis
            by (simp add: m set_mode_stop stopped_def calls_def config_ok_def)
        next
          case (Inr ts)
          show ?thesis
          proof (cases "missing_of ts = []")
            case True
            from set_mode_dry [OF Inr True d, of order api ?w] cl s ds Inr True show ?thesis
              by (simp add: m calls_def config_ok_def)
          next
            case False
            from set_mode_missing [OF Inr False, of order api ?w] cl s ds Inr False show ?thesis
              by (simp add: m stopped_def calls_def config_ok_def)
          qed
        qed
      qed
    qed
  qed
  have same: "main (a\<lparr>dry_run := True\<rparr>) e order mk r0 = main (a\<lparr>dry_run := False\<rparr>) e order mk r0"
    if s: "show_flag a"
  proof (cases "mk (region a)")
    case (Inl x)
    then have "main (a\<lparr>dry_run := b\<rparr>) e order mk r0 = stopped ?w (Uncaught x)" for b
      by (simp add: main_no_client)
    then show ?thesis by simp
  next
    case (Inr api)
    have "main (a\<lparr>dry_run := b\<rparr>) e order mk r0 = show_mode (a\<lparr>dry_run := b\<rparr>) e order api ?w"
      for b
      using Inr s by (simp add: main_show [where mk = mk and a = "a\<lparr>dry_run := b\<rparr>" and api = api])
    moreover have "show_mode (a\<lparr>dry_run := b\<rparr>) e order api ?w = show_mode a e order api ?w"
      for b
      by (simp add: show_mode_def iter_targets_dry_run)
    ultimately show ?thesis by simp
  qed
  from dry same show ?thesis by blast
qed

theorem dry_run_makes_no_call_witness:
  "dry_run (scenario_args\<lparr>dry_run := True\<rparr>) \<and> \<not> show_flag (scenario_args\<lparr>dry_run := True\<rparr>)
   \<and> config_ok (scenario_args\<lparr>dry_run := True\<rparr>) scenario_env client_denied
   \<and> final (main (scenario_args\<lparr>dry_run := True\<rparr>) scenario_env [] client_denied ())
       = \<lparr>trace = [], remote = ()\<rparr>
   \<and> exit_code (ended (main (scenario_args\<lparr>dry_run := True\<rparr>) scenario_env [] client_denied ()))
       = 0
   \<and> \<not> config_ok (scenario_args\<lparr>dry_run := True\<rparr>) scenario_env client_no_region
   \<and> exit_code (ended (main (scenario_args\<lparr>dry_run := True\<rparr>) scenario_env [] client_no_region ()))
       = 1
   \<and> show_flag (scenario_args\<lparr>show_flag := True\<rparr>)
   \<and> main (scenario_args\<lparr>show_flag := True, dry_run := True\<rparr>) scenario_env [] client_ok ()
       = main (scenario_args\<lparr>show_flag := True, dry_run := False\<rparr>) scenario_env [] client_ok ()"
proof -
  let ?a = "scenario_args\<lparr>dry_run := True\<rparr>"
  let ?s = "scenario_args\<lparr>show_flag := True\<rparr>"
  have d: "dry_run ?a" by simp
  have ns: "\<not> show_flag ?a" by (simp add: scenario_args_def)
  have ok: "config_ok ?a scenario_env client_denied" by code_simp
  have nok: "\<not> config_ok ?a scenario_env client_no_region" by code_simp
  have sf: "show_flag ?s" by simp
  from dry_run_makes_no_call [of ?a scenario_env "[]" client_denied "()"] d ns ok
  have a: "final (main ?a scenario_env [] client_denied ()) = \<lparr>trace = [], remote = ()\<rparr>
      \<and> exit_code (ended (main ?a scenario_env [] client_denied ())) = 0"
    by simp
  from dry_run_makes_no_call [of ?a scenario_env "[]" client_no_region "()"] d ns nok
  have b: "exit_code (ended (main ?a scenario_env [] client_no_region ())) = 1"
    by simp
  from dry_run_makes_no_call [of ?s scenario_env "[]" client_ok "()"] sf
  have c: "main (?s\<lparr>dry_run := True\<rparr>) scenario_env [] client_ok ()
      = main (?s\<lparr>dry_run := False\<rparr>) scenario_env [] client_ok ()"
    by blast
  from a b c d ns ok nok sf show ?thesis by simp
qed

text \<open>
  Claim C6 says that a set-mode run with a target without a value ends with the
  configuration error that names the functions. It does not when the client cannot be
  made: \<open>make_client\<close> runs first, and its exception ends the run before the targets are
  read.
\<close>

theorem set_missing_value_counterexample:
  "iter_targets (scenario_args\<lparr>concurrency := None\<rparr>) scenario_env True
     = Inr [(''a'', Some 5), (''b'', None), (''c'', Some (- 1))]
   \<and> ended (main (scenario_args\<lparr>concurrency := None\<rparr>) scenario_env [] client_no_region ())
       = Uncaught (OtherException ''NoRegionError'')"
  by code_simp

text \<open>
  Claim C6, amended. In set mode, when the rows parse and a target has neither a value
  in its row nor a default (no \<open>--concurrency\<close> was given), no call is made and the remote
  is untouched; and when the client was made, the run ends with the configuration error
  whose message names the first five of the functions without a value and ends with an
  ellipsis when there are more. The same holds, with the no-targets error, when no name
  is kept.
\<close>

theorem set_missing_value_stops:
  assumes "only_set a"
  shows "(iter_targets a e True = Inr ts \<longrightarrow> (fn, None) \<in> set ts \<longrightarrow>
            concurrency a = None
            \<and> calls (main a e order mk r0) = []
            \<and> remote (final (main a e order mk r0)) = r0
            \<and> (mk (region a) = Inr api \<longrightarrow>
                 ended (main a e order mk r0)
                   = SystemExit_msg
                       (''--set requires a concurrency value per-row or via --concurrency; missing for: ''
                         @ join '', '' (take 5 (missing_of ts))
                         @ (if 5 < length (missing_of ts) then ''...'' else []))))
       \<and> (source_rows a e = Some rs \<longrightarrow> kept_names rs = [] \<longrightarrow>
            calls (main a e order mk r0) = []
            \<and> remote (final (main a e order mk r0)) = r0
            \<and> (mk (region a) = Inr api \<longrightarrow>
                 ended (main a e order mk r0) = SystemExit_msg no_targets_msg))"
proof -
  let ?w = "\<lparr>trace = [], remote = r0\<rparr>"
  let ?R = "main a e order mk r0"
  have stop: "calls ?R = [] \<and> remote (final ?R) = r0 \<and> (mk (region a) = Inr api \<longrightarrow> ended ?R = x)"
    if st: "\<And>c. set_mode a e order c ?w = stopped ?w x" for x
  proof (cases "mk (region a)")
    case (Inl y)
    then show ?thesis by (simp add: main_no_client stopped_def calls_def)
  next
    case (Inr c)
    from main_set [where mk = mk and a = a, OF Inr assms, of e order r0] st [of c]
    have "?R = stopped ?w x" by simp
    moreover from Inr have "mk (region a) = Inr api \<longrightarrow> c = api" by simp
    ultimately show ?thesis by (simp add: stopped_def calls_def)
  qed
  have first: "concurrency a = None \<and> calls ?R = [] \<and> remote (final ?R) = r0
      \<and> (mk (region a) = Inr api \<longrightarrow>
            ended ?R = SystemExit_msg
                (''--set requires a concurrency value per-row or via --concurrency; missing for: ''
                  @ join '', '' (take 5 (missing_of ts))
                  @ (if 5 < length (missing_of ts) then ''...'' else [])))"
    if it: "iter_targets a e True = Inr ts" and mem: "(fn, None) \<in> set ts"
  proof -
    from iter_targets_True [OF it] mem have d: "concurrency a = None"
      using set_targets_None_default by blast
    from mem have ne: "missing_of ts \<noteq> []" using missing_of_member by fastforce
    have "set_mode a e order c ?w = stopped ?w (SystemExit_msg (set_missing_msg (missing_of ts)))"
      for c
      using it ne by (rule set_mode_missing)
    from stop [OF this] d show ?thesis
      by (simp add: set_missing_msg_def miss_str_def)
  qed
  have second: "calls ?R = [] \<and> remote (final ?R) = r0
      \<and> (mk (region a) = Inr api \<longrightarrow> ended ?R = SystemExit_msg no_targets_msg)"
    if rs: "source_rows a e = Some rs" and k: "kept_names rs = []"
  proof -
    from iter_targets_no_names [OF rs k, of True]
    have "set_mode a e order c ?w = stopped ?w (SystemExit_msg no_targets_msg)" for c
      by (rule set_mode_stop)
    from stop [OF this] show ?thesis .
  qed
  from first second show ?thesis by blast
qed

theorem set_missing_value_stops_witness:
  "only_set (scenario_args\<lparr>concurrency := None\<rparr>)
   \<and> iter_targets (scenario_args\<lparr>concurrency := None\<rparr>) scenario_env True
       = Inr [(''a'', Some 5), (''b'', None), (''c'', Some (- 1))]
   \<and> (''b'', None) \<in> set [(''a'', Some 5), (''b'', None), (''c'', Some (- 1 :: int))]
   \<and> client_ok (region (scenario_args\<lparr>concurrency := None\<rparr>)) = Inr api_ok
   \<and> calls (main (scenario_args\<lparr>concurrency := None\<rparr>) scenario_env [] client_ok ()) = []
   \<and> ended (main (scenario_args\<lparr>concurrency := None\<rparr>) scenario_env [] client_ok ())
       = SystemExit_msg
           ''--set requires a concurrency value per-row or via --concurrency; missing for: b''"
proof -
  let ?a = "scenario_args\<lparr>concurrency := None\<rparr>"
  have h: "only_set ?a" by (simp add: only_set_def scenario_args_def)
  have it: "iter_targets ?a scenario_env True
      = Inr [(''a'', Some 5), (''b'', None), (''c'', Some (- 1))]" by code_simp
  have mi: "missing_of [(''a'', Some 5), (''b'', None), (''c'', Some (- 1 :: int))] = [''b'']"
    by (simp add: missing_of_def)
  have cl: "client_ok (region ?a) = Inr api_ok" by (simp add: client_ok_def)
  from set_missing_value_stops [OF h, of scenario_env
      "[(''a'', Some 5), (''b'', None), (''c'', Some (- 1))]" "''b''" "[]" client_ok "()" api_ok]
    h it mi cl
  show ?thesis by simp
qed

text \<open>
  Claim C7. In throttle mode a live run makes, for every kept name, a put with the value
  0 (a dry run announces it); the calls depend on the names only, not on the second
  column of the rows nor on \<open>--concurrency\<close>.
\<close>

theorem throttle_sets_zero:
  assumes "only_throttle a" and "source_rows a e = Some rs"
  shows "(\<not> dry_run a \<longrightarrow>
            calls (main a e order (\<lambda>r. Inr api) r0) = schedule order (map (\<lambda>n. Put n 0) (kept_names rs)))
       \<and> (dry_run a \<longrightarrow>
            calls (main a e order (\<lambda>r. Inr api) r0) = []
            \<and> out (main a e order (\<lambda>r. Inr api) r0)
                = map (\<lambda>n. ''[DRYRUN SET] '' @ n @ '' -> 0'') (kept_names rs))"
proof -
  let ?w = "\<lparr>trace = [], remote = r0\<rparr>"
  have m: "main a e order (\<lambda>r. Inr api) r0 = throttle_mode a e order api ?w"
    using assms(1) by (rule main_throttle_client)
  note it = iter_targets_False [OF assms(2)]
  show ?thesis
  proof (cases "kept_names rs = []")
    case True
    with it have "throttle_mode a e order api ?w = stopped ?w (SystemExit_msg no_targets_msg)"
      by (simp add: throttle_mode_def)
    with True show ?thesis by (simp add: m calls_def stopped_def)
  next
    case False
    with it have ts: "iter_targets a e False = Inr (map (\<lambda>n. (n, None)) (kept_names rs))"
      by simp
    show ?thesis
    proof (cases "dry_run a")
      case True
      with ts show ?thesis by (simp add: m throttle_mode_def calls_def comp_def)
    next
      case False
      from throttle_mode_live [OF ts _ False, of ?w order api] False show ?thesis
        by (simp add: m schedule_map [symmetric] comp_def)
    qed
  qed
qed


theorem throttle_sets_zero_witness:
  "only_throttle (scenario_args\<lparr>do_set := False, throttle := True\<rparr>)
   \<and> source_rows (scenario_args\<lparr>do_set := False, throttle := True\<rparr>) scenario_env
       = Some [[''a'', ''5''], [''b''], [''c'', ''-1'']]
   \<and> \<not> dry_run (scenario_args\<lparr>do_set := False, throttle := True\<rparr>)
   \<and> calls (main (scenario_args\<lparr>do_set := False, throttle := True\<rparr>) scenario_env [] (\<lambda>r. Inr api_ok) ())
       = [Put ''a'' 0, Put ''b'' 0, Put ''c'' 0]"
proof -
  let ?a = "scenario_args\<lparr>do_set := False, throttle := True\<rparr>"
  have h: "only_throttle ?a" by (simp add: only_throttle_def scenario_args_def)
  have live: "\<not> dry_run ?a" by (simp add: scenario_args_def)
  have s: "source_rows ?a scenario_env = Some [[''a'', ''5''], [''b''], [''c'', ''-1'']]"
    by code_simp
  have k: "kept_names [[''a'', ''5''], [''b''], [''c'', ''-1'']] = [''a'', ''b'', ''c'']"
    by code_simp
  from throttle_sets_zero [OF h s, of "[]" api_ok "()"] h live s k
  show ?thesis by simp
qed

text \<open>
  Claim C8. From the rows of a CSV input the targets are exactly the trimmed names of the
  rows that are not blank, whose trimmed name is not empty and does not start with
  "function" in any letter case, in the order of the rows: without values the resolution
  returns these names (or the no-targets error when there is none), and with values it
  returns them whenever it returns.
\<close>

theorem csv_rows_filtered:
  assumes "source_rows a e = Some rs"
  shows "iter_targets a e False
           = (if kept_names rs = [] then Inl (SystemExit_msg no_targets_msg)
              else Inr (map (\<lambda>n. (n, None)) (kept_names rs)))
       \<and> (iter_targets a e True = Inr ts \<longrightarrow> map fst ts = kept_names rs)
       \<and> (n \<in> set (kept_names rs) \<longleftrightarrow>
            (\<exists>fn cols. fn # cols \<in> set rs \<and> n = strip fn \<and> n \<noteq> []
               \<and> \<not> startswith (lower n) ''function''))"
proof -
  have "map fst ts = kept_names rs" if "iter_targets a e True = Inr ts"
    using iter_targets_names [OF that] assms by auto
  with iter_targets_False [OF assms] kept_names_iff [of n rs] show ?thesis by blast
qed

theorem csv_rows_filtered_witness:
  "source_rows (scenario_args\<lparr>file_path := Some ''-''\<rparr>) header_env
     = Some [[''Function'', ''concurrency''], [], [''  '', ''4''], ['' a '', ''-2''],
             [''FUNCTIONS-x''], [''b'', ''0'']]
   \<and> iter_targets (scenario_args\<lparr>file_path := Some ''-''\<rparr>) header_env False
       = Inr [(''a'', None), (''b'', None)]
   \<and> iter_targets (scenario_args\<lparr>file_path := Some ''-''\<rparr>) header_env True
       = Inr [(''a'', Some (- 2)), (''b'', Some 0)]
   \<and> map fst [(''a'', Some (- 2 :: int)), (''b'', Some 0)]
       = kept_names [[''Function'', ''concurrency''], [], [''  '', ''4''], ['' a '', ''-2''],
             [''FUNCTIONS-x''], [''b'', ''0'']]"
proof -
  let ?a = "scenario_args\<lparr>file_path := Some ''-''\<rparr>"
  let ?rs = "[[''Function'', ''concurrency''], [], [''  '', ''4''], ['' a '', ''-2''],
             [''FUNCTIONS-x''], [''b'', ''0'']]"
  let ?ts = "[(''a'', Some (- 2 :: int)), (''b'', Some 0)]"
  have s: "source_rows ?a header_env = Some ?rs" by code_simp
  have k: "kept_names ?rs = [''a'', ''b'']" by code_simp
  have it: "iter_targets ?a header_env True = Inr ?ts" by code_simp
  note th = csv_rows_filtered [OF s, of ?ts "''a''"]
  from th have "iter_targets ?a header_env False
      = (if kept_names ?rs = [] then Inl (SystemExit_msg no_targets_msg)
         else Inr (map (\<lambda>n. (n, None)) (kept_names ?rs)))"
    by (rule conjunct1)
  then have f: "iter_targets ?a header_env False = Inr [(''a'', None), (''b'', None)]"
    unfolding k by simp
  from th it have m: "map fst ?ts = kept_names ?rs" by blast
  show ?thesis by (intro conjI) (rule s f it m)+
qed

text \<open>
  Claim C9 says that every invocation with a header-like \<open>--function\<close> name ends with the
  no-targets error. Without a mode flag it does not: the mode check comes before the
  targets are read, and the run ends with the mode error.
\<close>

theorem header_like_function_name_counterexample:
  "startswith (lower (strip ''function-x'')) ''function''
   \<and> ended (main (single_args\<lparr>function_name := Some ''function-x''\<rparr>) scenario_env []
        client_ok ())
       = SystemExit_msg mode_msg"
  by code_simp

text \<open>
  Claim C9, amended. The header test applies to \<open>--function NAME\<close> too: when the trimmed
  name starts with "function" in any letter case the name is dropped, the resolution ends
  with the no-targets error, and no call is made for that function or any other. When the
  client is made, a run with \<open>--show\<close> or with exactly one mode ends with the no-targets
  error, and a run with neither ends with the mode error.
\<close>

theorem header_like_function_name:
  assumes "function_name a = Some name" and "file_path a = None"
    and "startswith (lower (strip name)) ''function''"
  shows "iter_targets a e rv = Inl (SystemExit_msg no_targets_msg)
       \<and> calls (main a e order mk r0) = []
       \<and> (mk (region a) = Inr api \<longrightarrow>
            ended (main a e order mk r0)
              = (if show_flag a \<or> only_remove a \<or> only_throttle a \<or> only_set a
                 then SystemExit_msg no_targets_msg else SystemExit_msg mode_msg))"
proof -
  from assms(1,2) have rs: "source_rows a e = Some [[name]]"
    by (simp add: source_rows_def file_rows_def)
  from assms(3) have k: "kept_names [[name]] = []" by simp
  have it: "iter_targets a e rv = Inl (SystemExit_msg no_targets_msg)" for rv
    using rs k by (rule iter_targets_no_names)
  have e: "ended (main a e order mk r0)
      = (if show_flag a \<or> only_remove a \<or> only_throttle a \<or> only_set a
         then SystemExit_msg no_targets_msg else SystemExit_msg mode_msg)"
    if cl: "mk (region a) = Inr api"
  proof (cases "show_flag a \<or> only_remove a \<or> only_throttle a \<or> only_set a")
    case True
    from main_stops [where mk = mk and a = a and order = order and ?r0.0 = r0, OF cl it True] True
    show ?thesis by (simp add: stopped_def)
  next
    case False
    with cl show ?thesis by (simp add: main_no_mode [where mk = mk and a = a] stopped_def)
  qed
  from it main_stops_calls [where a = a and e = e and order = order and mk = mk and ?r0.0 = r0, OF it] e
  show ?thesis by blast
qed

theorem header_like_function_name_witness:
  "function_name (single_args\<lparr>function_name := Some '' Function-A '', remove := True\<rparr>)
     = Some '' Function-A ''
   \<and> file_path (single_args\<lparr>function_name := Some '' Function-A '', remove := True\<rparr>) = None
   \<and> startswith (lower (strip '' Function-A '')) ''function''
   \<and> client_ok (region (single_args\<lparr>function_name := Some '' Function-A '', remove := True\<rparr>))
       = Inr api_ok
   \<and> only_remove (single_args\<lparr>function_name := Some '' Function-A '', remove := True\<rparr>)
   \<and> calls (main (single_args\<lparr>function_name := Some '' Function-A '', remove := True\<rparr>)
               scenario_env [] client_ok ()) = []
   \<and> ended (main (single_args\<lparr>function_name := Some '' Function-A '', remove := True\<rparr>)
               scenario_env [] client_ok ())
       = SystemExit_msg no_targets_msg"
proof -
  let ?a = "single_args\<lparr>function_name := Some '' Function-A '', remove := True\<rparr>"
  have f: "function_name ?a = Some '' Function-A ''" by simp
  have p: "file_path ?a = None" by (simp add: single_args_def)
  have h: "startswith (lower (strip '' Function-A '')) ''function''" by code_simp
  have r: "only_remove ?a" by (simp add: only_remove_def single_args_def)
  have cl: "client_ok (region ?a) = Inr api_ok" by (simp add: client_ok_def)
  from header_like_function_name [OF f p h, of scenario_env False "[]" client_ok "()" api_ok]
    f p h r cl
  show ?thesis by simp
qed




end
